theory Spec2Isabelle
  imports Main "HOL-Library.AList"
begin

section \<open>JavaScript values\<close>

text \<open>
  The payloads handled by \<open>DefaultAuthHandler\<close> are values of type \<open>any\<close>. They are
  modelled as trees: an object is the ordered list of its own properties, an array is the
  list of its elements together with the named properties it may carry as an object
  (\<open>arr[name] = v\<close> is legal JavaScript). The handler works on the tree returned by
  \<open>clone\<close>, in which no object occurs twice, so a mutation in place of an object is
  the replacement of the sub-tree at its position.

  Properties inherited from a prototype (\<open>constructor\<close>, \<open>toString\<close>,
  \<open>length\<close> of a string or an array, the indices of an array) are outside the model:
  field names of a schema are identifiers other than these.
\<close>

datatype json =
    JUndefined
  | JNull
  | JBool bool
  | JNum int
  | JStr string
  | JObj "(string \<times> json) list"
  | JArr "json list" "(string \<times> json) list"

datatype error =
    PrismaClientValidationError string
  | Error string
  | TypeError
  | NotFoundError string

text \<open>
  A call that may throw yields \<open>Inl\<close> of what it throws or \<open>Inr\<close> of what it returns;
  \<open>and_then\<close> runs the rest of a block after such a call.
\<close>

definition and_then :: "error + 'a \<Rightarrow> ('a \<Rightarrow> error + 'b) \<Rightarrow> error + 'b" where
  "and_then r rest = (case r of Inl e \<Rightarrow> Inl e | Inr x \<Rightarrow> rest x)"

text \<open>\<open>!x\<close> is \<open>\<not> truthy x\<close>.\<close>

fun truthy :: "json \<Rightarrow> bool" where
  "truthy JUndefined = False"
| "truthy JNull = False"
| "truthy (JBool b) = b"
| "truthy (JNum n) = (n \<noteq> 0)"
| "truthy (JStr s) = (s \<noteq> [])"
| "truthy (JObj ps) = True"
| "truthy (JArr xs ps) = True"

text \<open>\<open>typeof x === 'object'\<close>: true of \<open>null\<close>, of objects and of arrays.\<close>

fun typeof_object :: "json \<Rightarrow> bool" where
  "typeof_object JNull = True"
| "typeof_object (JObj ps) = True"
| "typeof_object (JArr xs ps) = True"
| "typeof_object _ = False"

fun isArray :: "json \<Rightarrow> bool" where
  "isArray (JArr xs ps) = True"
| "isArray _ = False"

fun nullish :: "json \<Rightarrow> bool" where
  "nullish JUndefined = True"
| "nullish JNull = True"
| "nullish _ = False"

fun own_props :: "json \<Rightarrow> (string \<times> json) list option" where
  "own_props (JObj ps) = Some ps"
| "own_props (JArr xs ps) = Some ps"
| "own_props _ = None"

text \<open>\<open>k in data\<close>: a TypeError unless \<open>data\<close> is an object.\<close>

definition in_op :: "string \<Rightarrow> json \<Rightarrow> error + bool" where
  "in_op k data =
     (case own_props data of
        None \<Rightarrow> Inl TypeError
      | Some ps \<Rightarrow> Inr (map_of ps k \<noteq> None))"

text \<open>\<open>data[k]\<close> where \<open>data\<close> is neither \<open>null\<close> nor \<open>undefined\<close>.\<close>

definition prop_of :: "json \<Rightarrow> string \<Rightarrow> json" where
  "prop_of data k =
     (case own_props data of
        None \<Rightarrow> JUndefined
      | Some ps \<Rightarrow> (case map_of ps k of None \<Rightarrow> JUndefined | Some v \<Rightarrow> v))"

text \<open>\<open>data[k]\<close>: a TypeError on \<open>null\<close> and \<open>undefined\<close>.\<close>

definition get_prop :: "json \<Rightarrow> string \<Rightarrow> error + json" where
  "get_prop data k = (if nullish data then Inl TypeError else Inr (prop_of data k))"

text \<open>\<open>data?.[k]\<close>\<close>

definition opt_chain :: "json \<Rightarrow> string \<Rightarrow> json" where
  "opt_chain data k = (if nullish data then JUndefined else prop_of data k)"

text \<open>
  \<open>data[k] = v\<close> in strict mode (a class body is strict code): a TypeError unless
  \<open>data\<close> is an object. A new key goes last, an old key keeps its place.
\<close>

fun set_prop :: "json \<Rightarrow> string \<Rightarrow> json \<Rightarrow> error + json" where
  "set_prop (JObj ps) k v = Inr (JObj (AList.update k v ps))"
| "set_prop (JArr xs ps) k v = Inr (JArr xs (AList.update k v ps))"
| "set_prop _ k v = Inl TypeError"

text \<open>
  The object held at \<open>data[k]\<close> has been mutated in place and is now \<open>v\<close>: the tree
  \<open>data\<close> has \<open>v\<close> at \<open>k\<close>. No key is added: where \<open>data\<close> has no own property
  \<open>k\<close>, what was read there was \<open>undefined\<close>, which nothing mutates.
\<close>

fun store_back :: "json \<Rightarrow> string \<Rightarrow> json \<Rightarrow> json" where
  "store_back (JObj ps) k v =
     (if map_of ps k \<noteq> None then JObj (AList.update k v ps) else JObj ps)"
| "store_back (JArr xs ps) k v =
     (if map_of ps k \<noteq> None then JArr xs (AList.update k v ps) else JArr xs ps)"
| "store_back data k v = data"

text \<open>
  Modelled from the spec: \<open>enumerate\<close> is imported from \<open>'../../cross'\<close>, which is not
  part of the sources at hand. A batch container is walked element by element, a single
  payload is walked as itself, and there is nothing to walk in \<open>null\<close> or
  \<open>undefined\<close>.
\<close>

fun enumerate_json :: "json \<Rightarrow> json list" where
  "enumerate_json JUndefined = []"
| "enumerate_json JNull = []"
| "enumerate_json (JArr xs ps) = xs"
| "enumerate_json x = [x]"

text \<open>
  The elements yielded by \<open>enumerate_json data\<close> have been mutated in place and are now
  \<open>items\<close>: the tree that \<open>data\<close> has become.
\<close>

fun enumerated_back :: "json \<Rightarrow> json list \<Rightarrow> json" where
  "enumerated_back JUndefined items = JUndefined"
| "enumerated_back JNull items = JNull"
| "enumerated_back (JArr xs ps) items = JArr items ps"
| "enumerated_back x items = (case items of [y] \<Rightarrow> y | _ \<Rightarrow> x)"

section \<open>Model metadata\<close>

record FieldInfo =
  name :: string
  type :: string
  isTypeDef :: bool
  isForeignKey :: bool
  relationField :: "string option"
  foreignKeyMapping :: "(string \<times> string) list option"
  defaultValueProvider :: "(json \<Rightarrow> json) option"

record ModelMeta =
  models :: "(string \<times> FieldInfo list) list"
  typeDefs :: "(string \<times> FieldInfo list) list"

text \<open>
  Modelled from the spec: \<open>getFields\<close>, \<open>requireField\<close> and \<open>getTypeDefInfo\<close> are
  imported from \<open>'../../cross'\<close>, which is not part of the sources at hand. The index maps
  a model name to its ordered field list and a type-def name to its field list;
  \<open>getFields\<close> yields the fields of a model in declaration order (the list is what
  \<open>Object.values\<close> enumerates, \<open>None\<close> stands for \<open>undefined\<close>),
  \<open>requireField\<close> yields the field of that name or fails with a \<open>NotFoundError\<close>,
  \<open>getTypeDefInfo\<close> yields the fields of a type-def or \<open>undefined\<close>.
\<close>

definition getFields :: "ModelMeta \<Rightarrow> string \<Rightarrow> FieldInfo list option" where
  "getFields modelMeta model = map_of (models modelMeta) model"

definition requireField :: "ModelMeta \<Rightarrow> string \<Rightarrow> string \<Rightarrow> error + FieldInfo" where
  "requireField modelMeta model field =
     (case getFields modelMeta model of
        None \<Rightarrow> Inl (NotFoundError field)
      | Some fs \<Rightarrow>
          (case find (\<lambda>f. name f = field) fs of
             None \<Rightarrow> Inl (NotFoundError field)
           | Some f \<Rightarrow> Inr f))"

definition getTypeDefInfo :: "ModelMeta \<Rightarrow> string \<Rightarrow> FieldInfo list option" where
  "getTypeDefInfo modelMeta type_name = map_of (typeDefs modelMeta) type_name"

section \<open>The handler\<close>

text \<open>
  The state of a \<open>DefaultAuthHandler\<close> that its methods read: \<open>options.modelMeta\<close>
  and \<open>userContext\<close>. \<open>isUnsafeMutate\<close> is imported from \<open>'./utils'\<close>, which is not
  part of the sources at hand; it is a parameter of the handler.
\<close>

record DefaultAuthHandler =
  modelMeta :: ModelMeta
  userContext :: json
  isUnsafeMutate :: "string \<Rightarrow> json \<Rightarrow> ModelMeta \<Rightarrow> bool"

definition user_context_message :: "string \<Rightarrow> string" where
  "user_context_message field =
     ''Evaluating default value of field `'' @ field @ ''` requires a user context''"

definition no_relation_message :: "string \<Rightarrow> string" where
  "no_relation_message field =
     ''Field `'' @ field @ ''` is a foreign key field but no corresponding relation field is found''"

definition no_opposite_message :: "string \<Rightarrow> string \<Rightarrow> string" where
  "no_opposite_message field relFieldName =
     ''Cannot find opposite foreign key field for `'' @ field @ ''` in relation field `''
       @ relFieldName @ ''`''"

text \<open>\<open>getDefaultValue\<close>\<close>

definition getDefaultValue :: "DefaultAuthHandler \<Rightarrow> FieldInfo \<Rightarrow> error + json" where
  "getDefaultValue this fieldInfo =
     (if \<not> truthy (userContext this)
      then Inl (PrismaClientValidationError (user_context_message (name fieldInfo)))
      else Inr (case defaultValueProvider fieldInfo of
                  None \<Rightarrow> JUndefined
                | Some provider \<Rightarrow> provider (userContext this)))"

text \<open>\<open>getOppositeFkFieldName\<close>\<close>

definition getOppositeFkFieldName :: "FieldInfo \<Rightarrow> FieldInfo \<Rightarrow> string option" where
  "getOppositeFkFieldName relationField' fieldInfo =
     (case foreignKeyMapping relationField' of
        None \<Rightarrow> None
      | Some mapping \<Rightarrow>
          (case find (\<lambda>(k, v). v = name fieldInfo) mapping of
             None \<Rightarrow> None
           | Some entry \<Rightarrow> Some (fst entry)))"

text \<open>
  \<open>setDefaultValueForModelData\<close>. The result is \<open>data\<close> after the call. The object
  \<open>connect\<close> is the one at \<open>data[relationField.name].connect\<close>: setting a key in it
  changes the tree there.
\<close>

definition setDefaultValueForModelData ::
  "DefaultAuthHandler \<Rightarrow> FieldInfo \<Rightarrow> string \<Rightarrow> json \<Rightarrow> json \<Rightarrow> error + json" where
  "setDefaultValueForModelData this fieldInfo model data authDefaultValue =
     and_then
       (case relationField fieldInfo of
          None \<Rightarrow> Inr False
        | Some r \<Rightarrow> if isForeignKey fieldInfo \<and> r \<noteq> [] then in_op r data else Inr False)
       (\<lambda>relationIsSet.
          if relationIsSet then Inr data
          else if isForeignKey fieldInfo \<and> \<not> isUnsafeMutate this model data (modelMeta this) then
            (case relationField fieldInfo of
               None \<Rightarrow> Inl (Error (no_relation_message (name fieldInfo)))
             | Some relFieldName \<Rightarrow>
                 if relFieldName = [] then Inl (Error (no_relation_message (name fieldInfo)))
                 else
                   and_then (requireField (modelMeta this) model relFieldName) (\<lambda>relationField'.
                   and_then (get_prop data (name relationField')) (\<lambda>rel.
                   and_then
                     (if \<not> truthy (opt_chain rel ''connect'')
                      then and_then
                             (set_prop data (name relationField') (JObj [(''connect'', JObj [])]))
                             (\<lambda>data1. Inr (JObj [], data1))
                      else Inr (opt_chain rel ''connect'', data))
                     (\<lambda>(connect, data1).
                        (case getOppositeFkFieldName relationField' fieldInfo of
                           None \<Rightarrow> Inl (Error (no_opposite_message (name fieldInfo) relFieldName))
                         | Some oppositeFkFieldName \<Rightarrow>
                             if oppositeFkFieldName = []
                             then Inl (Error (no_opposite_message (name fieldInfo) relFieldName))
                             else
                               and_then (set_prop connect oppositeFkFieldName authDefaultValue)
                                 (\<lambda>connect'.
                                    Inr (store_back data1 (name relationField')
                                          (store_back (prop_of data1 (name relationField'))
                                             ''connect'' connect'))))))))
          else set_prop data (name fieldInfo) authDefaultValue)"

section \<open>Loops\<close>

text \<open>
  A \<open>for\<close> loop over a list (the fields of a model or type-def), its body working on
  one payload; and a loop over the elements of a payload, each mutated in place. A throw leaves the
  loop. The walk of embedded values recurses along the payload; its depth is bounded by
  a counter, and \<open>None\<close> is a walk that has not returned within the bound.
\<close>

fun for_each ::
  "('a \<Rightarrow> 's \<Rightarrow> (error + 's) option) \<Rightarrow> 'a list \<Rightarrow> 's \<Rightarrow> (error + 's) option" where
  "for_each body [] data = Some (Inr data)"
| "for_each body (x # rest) data =
     (case body x data of
        None \<Rightarrow> None
      | Some (Inl e) \<Rightarrow> Some (Inl e)
      | Some (Inr data') \<Rightarrow> for_each body rest data')"

fun for_items ::
  "(json \<Rightarrow> (error + json) option) \<Rightarrow> json list \<Rightarrow> (error + json list) option" where
  "for_items body [] = Some (Inr [])"
| "for_items body (item # rest) =
     (case body item of
        None \<Rightarrow> None
      | Some (Inl e) \<Rightarrow> Some (Inl e)
      | Some (Inr item') \<Rightarrow>
          (case for_items body rest of
             None \<Rightarrow> None
           | Some (Inl e) \<Rightarrow> Some (Inl e)
           | Some (Inr rest') \<Rightarrow> Some (Inr (item' # rest'))))"

section \<open>Defaults of embedded type-def values\<close>

text \<open>
  The body of the \<open>for\<close> loop of \<open>setDefaultValueForTypeDefData\<close>, for one field of the
  type-def and one element \<open>item\<close> (an object here); \<open>recurse\<close> is the recursive call.
\<close>

definition typeDefField ::
  "(string \<Rightarrow> json \<Rightarrow> (error + json) option) \<Rightarrow> DefaultAuthHandler \<Rightarrow> FieldInfo \<Rightarrow> json
     \<Rightarrow> (error + json) option" where
  "typeDefField recurse this fieldInfo item =
     (if isTypeDef fieldInfo then
        (case recurse (type fieldInfo) (prop_of item (name fieldInfo)) of
           None \<Rightarrow> None
         | Some (Inl e) \<Rightarrow> Some (Inl e)
         | Some (Inr sub) \<Rightarrow> Some (Inr (store_back item (name fieldInfo) sub)))
      else
        Some (and_then (in_op (name fieldInfo) item) (\<lambda>isSet.
                if \<not> isSet then
                  and_then (getDefaultValue this fieldInfo) (\<lambda>defaultValue.
                    if defaultValue \<noteq> JUndefined
                    then set_prop item (name fieldInfo) defaultValue
                    else Inr item)
                else Inr item)))"

text \<open>The callback of \<open>forEach\<close>, for one element.\<close>

definition typeDefItem ::
  "(string \<Rightarrow> json \<Rightarrow> (error + json) option) \<Rightarrow> DefaultAuthHandler \<Rightarrow> FieldInfo list \<Rightarrow> json
     \<Rightarrow> (error + json) option" where
  "typeDefItem recurse this typeDef item =
     (if \<not> truthy item \<or> \<not> typeof_object item then Some (Inr item)
      else for_each (typeDefField recurse this) typeDef item)"

text \<open>The body of \<open>setDefaultValueForTypeDefData\<close>. The result is \<open>data\<close> after the call.\<close>

definition typeDefData ::
  "(string \<Rightarrow> json \<Rightarrow> (error + json) option) \<Rightarrow> DefaultAuthHandler \<Rightarrow> string \<Rightarrow> json
     \<Rightarrow> (error + json) option" where
  "typeDefData recurse this type_name data =
     (if \<not> truthy data \<or> (\<not> typeof_object data \<and> \<not> isArray data) then Some (Inr data)
      else
        (case getTypeDefInfo (modelMeta this) type_name of
           None \<Rightarrow> Some (Inr data)
         | Some typeDef \<Rightarrow>
             (case for_items (typeDefItem recurse this typeDef) (enumerate_json data) of
                None \<Rightarrow> None
              | Some (Inl e) \<Rightarrow> Some (Inl e)
              | Some (Inr items) \<Rightarrow> Some (Inr (enumerated_back data items)))))"

primrec setDefaultValueForTypeDefData ::
  "nat \<Rightarrow> DefaultAuthHandler \<Rightarrow> string \<Rightarrow> json \<Rightarrow> (error + json) option" where
  "setDefaultValueForTypeDefData 0 this type_name data = None"
| "setDefaultValueForTypeDefData (Suc depth) this type_name data =
     typeDefData (setDefaultValueForTypeDefData depth this) this type_name data"

section \<open>Defaults of create payloads\<close>

text \<open>The body of the \<open>for\<close> loop of \<open>processCreatePayload\<close>, for one field of the model.\<close>

definition processField ::
  "nat \<Rightarrow> DefaultAuthHandler \<Rightarrow> string \<Rightarrow> FieldInfo \<Rightarrow> json \<Rightarrow> (error + json) option" where
  "processField depth this model fieldInfo data =
     (if isTypeDef fieldInfo then
        (case get_prop data (name fieldInfo) of
           Inl e \<Rightarrow> Some (Inl e)
         | Inr sub \<Rightarrow>
             (case setDefaultValueForTypeDefData depth this (type fieldInfo) sub of
                None \<Rightarrow> None
              | Some (Inl e) \<Rightarrow> Some (Inl e)
              | Some (Inr sub') \<Rightarrow> Some (Inr (store_back data (name fieldInfo) sub'))))
      else
        Some (and_then (in_op (name fieldInfo) data) (\<lambda>isSet.
                if isSet then Inr data
                else if defaultValueProvider fieldInfo = None then Inr data
                else
                  and_then (getDefaultValue this fieldInfo) (\<lambda>defaultValue.
                    if defaultValue \<noteq> JUndefined
                    then setDefaultValueForModelData this fieldInfo model data defaultValue
                    else Inr data))))"

definition processCreatePayload ::
  "nat \<Rightarrow> DefaultAuthHandler \<Rightarrow> string \<Rightarrow> json \<Rightarrow> (error + json) option" where
  "processCreatePayload depth this model data =
     (case getFields (modelMeta this) model of
        None \<Rightarrow> Some (Inl TypeError)
      | Some fs \<Rightarrow> for_each (processField depth this model) fs data)"

text \<open>
  The callbacks given to the \<open>NestedWriteVisitor\<close>, each yielding its argument after the
  call: \<open>create\<close>, \<open>upsert\<close> and \<open>createMany\<close>.
\<close>

definition create_callback ::
  "nat \<Rightarrow> DefaultAuthHandler \<Rightarrow> string \<Rightarrow> json \<Rightarrow> (error + json) option" where
  "create_callback depth this model data = processCreatePayload depth this model data"

definition upsert_callback ::
  "nat \<Rightarrow> DefaultAuthHandler \<Rightarrow> string \<Rightarrow> json \<Rightarrow> (error + json) option" where
  "upsert_callback depth this model data =
     (case get_prop data ''create'' of
        Inl e \<Rightarrow> Some (Inl e)
      | Inr payload \<Rightarrow>
          (case processCreatePayload depth this model payload of
             None \<Rightarrow> None
           | Some (Inl e) \<Rightarrow> Some (Inl e)
           | Some (Inr payload') \<Rightarrow> Some (Inr (store_back data ''create'' payload'))))"

definition createMany_callback ::
  "nat \<Rightarrow> DefaultAuthHandler \<Rightarrow> string \<Rightarrow> json \<Rightarrow> (error + json) option" where
  "createMany_callback depth this model args =
     (case get_prop args ''data'' of
        Inl e \<Rightarrow> Some (Inl e)
      | Inr batch \<Rightarrow>
          (case for_items (processCreatePayload depth this model) (enumerate_json batch) of
             None \<Rightarrow> None
           | Some (Inl e) \<Rightarrow> Some (Inl e)
           | Some (Inr items) \<Rightarrow>
               Some (Inr (store_back args ''data'' (enumerated_back batch items)))))"

section \<open>Payloads as objects of a store\<close>

text \<open>
  Whether a call changes an object of its caller depends on which object a write goes
  to. Here an object is a cell of a store, a value is a primitive or the address of a
  cell, and a write replaces a cell. The methods of the handler are translated a second
  time over the store, statement by statement as above. The caller identity is no part
  of the store: what a default provider yields is stored as a value of its own.
\<close>

datatype val =
    VUndefined
  | VNull
  | VBool bool
  | VNum int
  | VStr string
  | VRef nat

datatype cell =
    Obj "(string \<times> val) list"
  | Arr "val list" "(string \<times> val) list"

type_synonym heap = "cell list"

fun cell_props :: "cell \<Rightarrow> (string \<times> val) list" where
  "cell_props (Obj ps) = ps"
| "cell_props (Arr xs ps) = ps"

fun cell_with_props :: "cell \<Rightarrow> (string \<times> val) list \<Rightarrow> cell" where
  "cell_with_props (Obj ps) ps' = Obj ps'"
| "cell_with_props (Arr xs ps) ps' = Arr xs ps'"

fun val_truthy :: "val \<Rightarrow> bool" where
  "val_truthy VUndefined = False"
| "val_truthy VNull = False"
| "val_truthy (VBool b) = b"
| "val_truthy (VNum n) = (n \<noteq> 0)"
| "val_truthy (VStr s) = (s \<noteq> [])"
| "val_truthy (VRef a) = True"

fun val_typeof_object :: "val \<Rightarrow> bool" where
  "val_typeof_object VNull = True"
| "val_typeof_object (VRef a) = True"
| "val_typeof_object _ = False"

fun val_nullish :: "val \<Rightarrow> bool" where
  "val_nullish VUndefined = True"
| "val_nullish VNull = True"
| "val_nullish _ = False"

text \<open>The cell of an object; an address beyond the store is the address of no object.\<close>

fun cell_at :: "heap \<Rightarrow> val \<Rightarrow> cell option" where
  "cell_at h (VRef a) = (if a < length h then Some (h ! a) else None)"
| "cell_at h _ = None"

definition heap_isArray :: "heap \<Rightarrow> val \<Rightarrow> bool" where
  "heap_isArray h v = (case cell_at h v of Some (Arr xs ps) \<Rightarrow> True | _ \<Rightarrow> False)"

definition heap_in :: "string \<Rightarrow> heap \<Rightarrow> val \<Rightarrow> error + bool" where
  "heap_in k h data =
     (case cell_at h data of
        None \<Rightarrow> Inl TypeError
      | Some c \<Rightarrow> Inr (map_of (cell_props c) k \<noteq> None))"

definition heap_prop_of :: "heap \<Rightarrow> val \<Rightarrow> string \<Rightarrow> val" where
  "heap_prop_of h data k =
     (case cell_at h data of
        None \<Rightarrow> VUndefined
      | Some c \<Rightarrow> (case map_of (cell_props c) k of None \<Rightarrow> VUndefined | Some v \<Rightarrow> v))"

definition heap_get_prop :: "heap \<Rightarrow> val \<Rightarrow> string \<Rightarrow> error + val" where
  "heap_get_prop h data k =
     (if val_nullish data then Inl TypeError else Inr (heap_prop_of h data k))"

definition heap_opt_chain :: "heap \<Rightarrow> val \<Rightarrow> string \<Rightarrow> val" where
  "heap_opt_chain h data k = (if val_nullish data then VUndefined else heap_prop_of h data k)"

text \<open>\<open>data[k] = v\<close>: the cell of \<open>data\<close> is replaced, no other cell is.\<close>

fun heap_set_prop :: "heap \<Rightarrow> val \<Rightarrow> string \<Rightarrow> val \<Rightarrow> error + heap" where
  "heap_set_prop h (VRef a) k v =
     (if a < length h
      then Inr (h[a := cell_with_props (h ! a) (AList.update k v (cell_props (h ! a)))])
      else Inl TypeError)"
| "heap_set_prop h _ k v = Inl TypeError"

text \<open>A new object: a new cell at the end of the store.\<close>

definition heap_new :: "heap \<Rightarrow> cell \<Rightarrow> heap \<times> val" where
  "heap_new h c = (h @ [c], VRef (length h))"

fun heap_enumerate :: "heap \<Rightarrow> val \<Rightarrow> val list" where
  "heap_enumerate h VUndefined = []"
| "heap_enumerate h VNull = []"
| "heap_enumerate h v = (case cell_at h v of Some (Arr xs ps) \<Rightarrow> xs | _ \<Rightarrow> [v])"

text \<open>A value that a default provider has yielded, as a value of the store.\<close>

fun store_json :: "heap \<Rightarrow> json \<Rightarrow> heap \<times> val"
  and store_props :: "heap \<Rightarrow> (string \<times> json) list \<Rightarrow> heap \<times> (string \<times> val) list"
  and store_items :: "heap \<Rightarrow> json list \<Rightarrow> heap \<times> val list" where
  "store_json h JUndefined = (h, VUndefined)"
| "store_json h JNull = (h, VNull)"
| "store_json h (JBool b) = (h, VBool b)"
| "store_json h (JNum n) = (h, VNum n)"
| "store_json h (JStr s) = (h, VStr s)"
| "store_json h (JObj ps) =
     (case store_props h ps of (h1, ps') \<Rightarrow> heap_new h1 (Obj ps'))"
| "store_json h (JArr xs ps) =
     (case store_items h xs of (h1, xs') \<Rightarrow>
        (case store_props h1 ps of (h2, ps') \<Rightarrow> heap_new h2 (Arr xs' ps')))"
| "store_props h [] = (h, [])"
| "store_props h ((k, j) # ps) =
     (case store_json h j of (h1, v) \<Rightarrow>
        (case store_props h1 ps of (h2, ps') \<Rightarrow> (h2, (k, v) # ps')))"
| "store_items h [] = (h, [])"
| "store_items h (j # xs) =
     (case store_json h j of (h1, v) \<Rightarrow>
        (case store_items h1 xs of (h2, xs') \<Rightarrow> (h2, v # xs')))"


subsection \<open>The handler over the store\<close>

text \<open>
  Each definition is the one of the same name above, with \<open>h\<close> the store before the
  call and the result the store after it; \<open>unsafe\<close> is \<open>isUnsafeMutate\<close> as a predicate
  of the payload in the store.
\<close>

definition heap_getDefaultValue ::
  "DefaultAuthHandler \<Rightarrow> FieldInfo \<Rightarrow> heap \<Rightarrow> error + heap \<times> val" where
  "heap_getDefaultValue this fieldInfo h =
     and_then (getDefaultValue this fieldInfo) (\<lambda>defaultValue. Inr (store_json h defaultValue))"

definition heap_setDefaultValueForModelData ::
  "(string \<Rightarrow> heap \<Rightarrow> val \<Rightarrow> bool) \<Rightarrow> DefaultAuthHandler \<Rightarrow> FieldInfo \<Rightarrow> string \<Rightarrow> val \<Rightarrow> val
     \<Rightarrow> heap \<Rightarrow> error + heap" where
  "heap_setDefaultValueForModelData unsafe this fieldInfo model data authDefaultValue h =
     and_then
       (case relationField fieldInfo of
          None \<Rightarrow> Inr False
        | Some r \<Rightarrow> if isForeignKey fieldInfo \<and> r \<noteq> [] then heap_in r h data else Inr False)
       (\<lambda>relationIsSet.
          if relationIsSet then Inr h
          else if isForeignKey fieldInfo \<and> \<not> unsafe model h data then
            (case relationField fieldInfo of
               None \<Rightarrow> Inl (Error (no_relation_message (name fieldInfo)))
             | Some relFieldName \<Rightarrow>
                 if relFieldName = [] then Inl (Error (no_relation_message (name fieldInfo)))
                 else
                   and_then (requireField (modelMeta this) model relFieldName) (\<lambda>relationField'.
                   and_then (heap_get_prop h data (name relationField')) (\<lambda>rel.
                   and_then
                     (if \<not> val_truthy (heap_opt_chain h rel ''connect'')
                      then
                        (case heap_new h (Obj []) of (h1, connect) \<Rightarrow>
                           (case heap_new h1 (Obj [(''connect'', connect)]) of (h2, holder) \<Rightarrow>
                              and_then (heap_set_prop h2 data (name relationField') holder)
                                (\<lambda>h3. Inr (connect, h3))))
                      else Inr (heap_opt_chain h rel ''connect'', h))
                     (\<lambda>(connect, h1).
                        (case getOppositeFkFieldName relationField' fieldInfo of
                           None \<Rightarrow> Inl (Error (no_opposite_message (name fieldInfo) relFieldName))
                         | Some oppositeFkFieldName \<Rightarrow>
                             if oppositeFkFieldName = []
                             then Inl (Error (no_opposite_message (name fieldInfo) relFieldName))
                             else heap_set_prop h1 connect oppositeFkFieldName
                                    authDefaultValue)))))
          else heap_set_prop h data (name fieldInfo) authDefaultValue)"

definition heap_typeDefField ::
  "(string \<Rightarrow> val \<Rightarrow> heap \<Rightarrow> (error + heap) option) \<Rightarrow> DefaultAuthHandler \<Rightarrow> val \<Rightarrow> FieldInfo
     \<Rightarrow> heap \<Rightarrow> (error + heap) option" where
  "heap_typeDefField recurse this item fieldInfo h =
     (if isTypeDef fieldInfo then
        recurse (type fieldInfo) (heap_prop_of h item (name fieldInfo)) h
      else
        Some (and_then (heap_in (name fieldInfo) h item) (\<lambda>isSet.
                if \<not> isSet then
                  and_then (heap_getDefaultValue this fieldInfo h) (\<lambda>(h1, defaultValue).
                    if defaultValue \<noteq> VUndefined
                    then heap_set_prop h1 item (name fieldInfo) defaultValue
                    else Inr h1)
                else Inr h)))"

definition heap_typeDefItem ::
  "(string \<Rightarrow> val \<Rightarrow> heap \<Rightarrow> (error + heap) option) \<Rightarrow> DefaultAuthHandler \<Rightarrow> FieldInfo list
     \<Rightarrow> val \<Rightarrow> heap \<Rightarrow> (error + heap) option" where
  "heap_typeDefItem recurse this typeDef item h =
     (if \<not> val_truthy item \<or> \<not> val_typeof_object item then Some (Inr h)
      else for_each (heap_typeDefField recurse this item) typeDef h)"

definition heap_typeDefData ::
  "(string \<Rightarrow> val \<Rightarrow> heap \<Rightarrow> (error + heap) option) \<Rightarrow> DefaultAuthHandler \<Rightarrow> string \<Rightarrow> val
     \<Rightarrow> heap \<Rightarrow> (error + heap) option" where
  "heap_typeDefData recurse this type_name data h =
     (if \<not> val_truthy data \<or> (\<not> val_typeof_object data \<and> \<not> heap_isArray h data)
      then Some (Inr h)
      else
        (case getTypeDefInfo (modelMeta this) type_name of
           None \<Rightarrow> Some (Inr h)
         | Some typeDef \<Rightarrow>
             for_each (heap_typeDefItem recurse this typeDef) (heap_enumerate h data) h))"

primrec heap_setDefaultValueForTypeDefData ::
  "nat \<Rightarrow> DefaultAuthHandler \<Rightarrow> string \<Rightarrow> val \<Rightarrow> heap \<Rightarrow> (error + heap) option" where
  "heap_setDefaultValueForTypeDefData 0 this type_name data h = None"
| "heap_setDefaultValueForTypeDefData (Suc depth) this type_name data h =
     heap_typeDefData (heap_setDefaultValueForTypeDefData depth this) this type_name data h"

definition heap_processField ::
  "(string \<Rightarrow> heap \<Rightarrow> val \<Rightarrow> bool) \<Rightarrow> nat \<Rightarrow> DefaultAuthHandler \<Rightarrow> string \<Rightarrow> val \<Rightarrow> FieldInfo
     \<Rightarrow> heap \<Rightarrow> (error + heap) option" where
  "heap_processField unsafe depth this model data fieldInfo h =
     (if isTypeDef fieldInfo then
        (case heap_get_prop h data (name fieldInfo) of
           Inl e \<Rightarrow> Some (Inl e)
         | Inr sub \<Rightarrow> heap_setDefaultValueForTypeDefData depth this (type fieldInfo) sub h)
      else
        Some (and_then (heap_in (name fieldInfo) h data) (\<lambda>isSet.
                if isSet then Inr h
                else if defaultValueProvider fieldInfo = None then Inr h
                else
                  and_then (heap_getDefaultValue this fieldInfo h) (\<lambda>(h1, defaultValue).
                    if defaultValue \<noteq> VUndefined
                    then heap_setDefaultValueForModelData unsafe this fieldInfo model data
                           defaultValue h1
                    else Inr h1))))"

definition heap_processCreatePayload ::
  "(string \<Rightarrow> heap \<Rightarrow> val \<Rightarrow> bool) \<Rightarrow> nat \<Rightarrow> DefaultAuthHandler \<Rightarrow> string \<Rightarrow> val
     \<Rightarrow> heap \<Rightarrow> (error + heap) option" where
  "heap_processCreatePayload unsafe depth this model data h =
     (case getFields (modelMeta this) model of
        None \<Rightarrow> Some (Inl TypeError)
      | Some fs \<Rightarrow> for_each (heap_processField unsafe depth this model data) fs h)"

datatype callback = Create | Upsert | CreateMany

fun heap_callback ::
  "(string \<Rightarrow> heap \<Rightarrow> val \<Rightarrow> bool) \<Rightarrow> nat \<Rightarrow> DefaultAuthHandler \<Rightarrow> callback \<times> string \<times> val
     \<Rightarrow> heap \<Rightarrow> (error + heap) option" where
  "heap_callback unsafe depth this (Create, model, data) h =
     heap_processCreatePayload unsafe depth this model data h"
| "heap_callback unsafe depth this (Upsert, model, data) h =
     (case heap_get_prop h data ''create'' of
        Inl e \<Rightarrow> Some (Inl e)
      | Inr payload \<Rightarrow> heap_processCreatePayload unsafe depth this model payload h)"
| "heap_callback unsafe depth this (CreateMany, model, args) h =
     (case heap_get_prop h args ''data'' of
        Inl e \<Rightarrow> Some (Inl e)
      | Inr batch \<Rightarrow>
          for_each (heap_processCreatePayload unsafe depth this model) (heap_enumerate h batch) h)"

text \<open>
  Modelled from the spec: \<open>clone\<close> is imported from \<open>'../../cross'\<close>, which is not part of
  the sources at hand. A deep clone: every object that the value reaches is copied to a
  new object, whose properties and elements are the clones of the original's. The
  recursion runs along the value; \<open>None\<close> is a clone that has not returned within the
  bound.
\<close>

fun clone_each ::
  "(heap \<Rightarrow> 'a \<Rightarrow> (heap \<times> 'b) option) \<Rightarrow> heap \<Rightarrow> 'a list \<Rightarrow> (heap \<times> 'b list) option" where
  "clone_each f h [] = Some (h, [])"
| "clone_each f h (x # xs) =
     (case f h x of
        None \<Rightarrow> None
      | Some (h1, y) \<Rightarrow>
          (case clone_each f h1 xs of
             None \<Rightarrow> None
           | Some (h2, ys) \<Rightarrow> Some (h2, y # ys)))"

definition clone_prop ::
  "(heap \<Rightarrow> val \<Rightarrow> (heap \<times> val) option) \<Rightarrow> heap \<Rightarrow> string \<times> val
     \<Rightarrow> (heap \<times> (string \<times> val)) option" where
  "clone_prop f h p =
     (case f h (snd p) of None \<Rightarrow> None | Some (h1, v) \<Rightarrow> Some (h1, (fst p, v)))"

primrec clone :: "nat \<Rightarrow> heap \<Rightarrow> val \<Rightarrow> (heap \<times> val) option" where
  "clone 0 h v = None"
| "clone (Suc depth) h v =
     (case cell_at h v of
        None \<Rightarrow> Some (h, v)
      | Some (Obj ps) \<Rightarrow>
          (case clone_each (clone_prop (clone depth)) h ps of
             None \<Rightarrow> None
           | Some (h1, ps') \<Rightarrow> Some (heap_new h1 (Obj ps')))
      | Some (Arr xs ps) \<Rightarrow>
          (case clone_each (clone depth) h xs of
             None \<Rightarrow> None
           | Some (h1, xs') \<Rightarrow>
               (case clone_each (clone_prop (clone depth)) h1 ps of
                  None \<Rightarrow> None
                | Some (h2, ps') \<Rightarrow> Some (heap_new h2 (Arr xs' ps')))))"

text \<open>
  Modelled from the spec: the \<open>NestedWriteVisitor\<close> and \<open>ACTIONS_WITH_WRITE_PAYLOAD\<close> are
  not part of the sources at hand. The visitor walks the tree it is given and calls the
  callback registered for a node with the node's model and payload sub-tree, one node
  after the other; \<open>visit\<close> yields the nodes of a tree in the order of the walk.
\<close>

definition heap_preprocessWritePayload ::
  "(string \<Rightarrow> heap \<Rightarrow> val \<Rightarrow> bool) \<Rightarrow> (string \<Rightarrow> string \<Rightarrow> heap \<Rightarrow> val \<Rightarrow> (callback \<times> string \<times> val) list)
     \<Rightarrow> nat \<Rightarrow> DefaultAuthHandler \<Rightarrow> string \<Rightarrow> string \<Rightarrow> val \<Rightarrow> heap
     \<Rightarrow> (error + heap \<times> val) option" where
  "heap_preprocessWritePayload unsafe visit depth this model action args h =
     (case clone depth h args of
        None \<Rightarrow> None
      | Some (h1, newArgs) \<Rightarrow>
          (case for_each (heap_callback unsafe depth this) (visit model action h1 newArgs) h1 of
             None \<Rightarrow> None
           | Some (Inl e) \<Rightarrow> Some (Inl e)
           | Some (Inr h2) \<Rightarrow> Some (Inr (h2, newArgs))))"

definition heap_preprocessArgs ::
  "(string \<Rightarrow> heap \<Rightarrow> val \<Rightarrow> bool) \<Rightarrow> (string \<Rightarrow> string \<Rightarrow> heap \<Rightarrow> val \<Rightarrow> (callback \<times> string \<times> val) list)
     \<Rightarrow> string list \<Rightarrow> nat \<Rightarrow> DefaultAuthHandler \<Rightarrow> string \<Rightarrow> string \<Rightarrow> val \<Rightarrow> heap
     \<Rightarrow> (error + heap \<times> val) option" where
  "heap_preprocessArgs unsafe visit ACTIONS_WITH_WRITE_PAYLOAD depth this model action args h =
     (if val_truthy args \<and> action \<in> set ACTIONS_WITH_WRITE_PAYLOAD
      then heap_preprocessWritePayload unsafe visit depth this model action args h
      else Some (Inr (h, args)))"

text \<open>
  The objects of a call live from the address \<open>n\<close> on. A value is of the call when it
  is a primitive or the address of such an object; the store is closed when the objects
  of the call hold values of the call only.
\<close>

definition of_call :: "nat \<Rightarrow> val \<Rightarrow> bool" where
  "of_call n v = (case v of VRef a \<Rightarrow> n \<le> a | _ \<Rightarrow> True)"

fun cell_vals :: "cell \<Rightarrow> val list" where
  "cell_vals (Obj ps) = map snd ps"
| "cell_vals (Arr xs ps) = xs @ map snd ps"

definition closed :: "nat \<Rightarrow> heap \<Rightarrow> bool" where
  "closed n h \<longleftrightarrow> n \<le> length h \<and> (\<forall>a. n \<le> a \<and> a < length h \<longrightarrow> (\<forall>v \<in> set (cell_vals (h ! a)). of_call n v))"

text \<open>The store \<open>h'\<close> has the objects of the caller as \<open>h\<close> has them.\<close>

definition keeps :: "nat \<Rightarrow> heap \<Rightarrow> heap \<Rightarrow> bool" where
  "keeps n h h' \<longleftrightarrow> closed n h' \<and> (\<forall>a < n. h' ! a = h ! a)"

section \<open>Metadata invariants\<close>

text \<open>
  The field table of a model maps field names to fields, so no two fields share a name;
  and the field that a foreign key names as its relation is a relation field: it is no
  embedded value and has no default of its own.
\<close>

definition well_formed_fields :: "FieldInfo list \<Rightarrow> bool" where
  "well_formed_fields fs \<longleftrightarrow>
     distinct (map name fs) \<and>
     (\<forall>g \<in> set fs. \<forall>x \<in> set fs.
        isForeignKey g \<and> relationField g = Some (name x)
          \<longrightarrow> \<not> isTypeDef x \<and> defaultValueProvider x = None)"

text \<open>
  The row a payload refers to, as the list of the columns of the opposite model that
  select it. A scalar foreign key selects the row whose column paired with it in the
  relation's mapping holds its value; a \<open>connect\<close> selects the row by the keys it holds.
\<close>

definition scalar_reference :: "FieldInfo \<Rightarrow> FieldInfo \<Rightarrow> json \<Rightarrow> (string \<times> json) list option" where
  "scalar_reference relationField' fieldInfo data =
     (case getOppositeFkFieldName relationField' fieldInfo of
        None \<Rightarrow> None
      | Some opposite \<Rightarrow> Some [(opposite, prop_of data (name fieldInfo))])"

definition connect_reference :: "FieldInfo \<Rightarrow> json \<Rightarrow> (string \<times> json) list option" where
  "connect_reference relationField' data =
     own_props (opt_chain (prop_of data (name relationField')) ''connect'')"

section \<open>A schema for examples\<close>

text \<open>
  \<open>Post\<close> has an author defaulted from \<open>auth().id\<close> and an embedded \<open>Meta\<close>;
  \<open>Membership\<close> has a relation backed by two foreign keys, both defaulted from the
  caller; \<open>Orphan\<close> and \<open>Unmapped\<close> have foreign keys whose relation cannot be resolved.
\<close>

definition plain_field :: "string \<Rightarrow> string \<Rightarrow> FieldInfo" where
  "plain_field field_name type_name =
     \<lparr>name = field_name, type = type_name, isTypeDef = False, isForeignKey = False,
      relationField = None, foreignKeyMapping = None, defaultValueProvider = None\<rparr>"

definition auth_field :: "string \<Rightarrow> json \<Rightarrow> json" where
  "auth_field k user = prop_of user k"

definition title_field :: FieldInfo where
  "title_field = plain_field ''title'' ''String''"

definition author_field :: FieldInfo where
  "author_field = (plain_field ''author'' ''User'')
     \<lparr>foreignKeyMapping := Some [(''id'', ''authorId'')]\<rparr>"

definition authorId_field :: FieldInfo where
  "authorId_field = (plain_field ''authorId'' ''String'')
     \<lparr>isForeignKey := True, relationField := Some ''author'',
      defaultValueProvider := Some (auth_field ''id'')\<rparr>"

definition meta_field :: FieldInfo where
  "meta_field = (plain_field ''meta'' ''Meta'') \<lparr>isTypeDef := True\<rparr>"

definition note_field :: FieldInfo where
  "note_field = plain_field ''note'' ''String''"

definition editor_field :: FieldInfo where
  "editor_field = (plain_field ''editor'' ''String'')
     \<lparr>defaultValueProvider := Some (auth_field ''id'')\<rparr>"

definition inner_field :: FieldInfo where
  "inner_field = (plain_field ''inner'' ''Meta'') \<lparr>isTypeDef := True\<rparr>"

definition org_field :: FieldInfo where
  "org_field = (plain_field ''org'' ''Org'')
     \<lparr>foreignKeyMapping := Some [(''id'', ''orgId''), (''tenant'', ''orgTenant'')]\<rparr>"

definition orgId_field :: FieldInfo where
  "orgId_field = (plain_field ''orgId'' ''String'')
     \<lparr>isForeignKey := True, relationField := Some ''org'',
      defaultValueProvider := Some (auth_field ''orgId'')\<rparr>"

definition orgTenant_field :: FieldInfo where
  "orgTenant_field = (plain_field ''orgTenant'' ''String'')
     \<lparr>isForeignKey := True, relationField := Some ''org'',
      defaultValueProvider := Some (auth_field ''tenant'')\<rparr>"

definition ownerId_field :: FieldInfo where
  "ownerId_field = (plain_field ''ownerId'' ''String'')
     \<lparr>isForeignKey := True, defaultValueProvider := Some (auth_field ''id'')\<rparr>"

definition owner_field :: FieldInfo where
  "owner_field = (plain_field ''owner'' ''User'')
     \<lparr>foreignKeyMapping := Some [(''id'', ''userId'')]\<rparr>"

definition blog_meta :: ModelMeta where
  "blog_meta =
     \<lparr>models =
        [(''Post'', [title_field, author_field, authorId_field, meta_field]),
         (''Membership'', [org_field, orgId_field, orgTenant_field]),
         (''Orphan'', [ownerId_field]),
         (''Unmapped'', [owner_field, ownerId_field \<lparr>relationField := Some ''owner''\<rparr>])],
      typeDefs = [(''Meta'', [note_field, editor_field, inner_field])]\<rparr>"

definition handler :: "json \<Rightarrow> bool \<Rightarrow> DefaultAuthHandler" where
  "handler user unsafe =
     \<lparr>modelMeta = blog_meta, userContext = user,
      isUnsafeMutate = (\<lambda>model data meta. unsafe)\<rparr>"

definition u1 :: json where
  "u1 = JObj [(''id'', JStr ''u1''), (''orgId'', JStr ''o1''), (''tenant'', JStr ''t1'')]"

text \<open>A visitor that hands the top-level node of the arguments to its callback.\<close>

definition top_level_visit :: "string \<Rightarrow> string \<Rightarrow> heap \<Rightarrow> val \<Rightarrow> (callback \<times> string \<times> val) list" where
  "top_level_visit model action h args =
     (if action = ''create'' then [(Create, model, heap_prop_of h args ''data'')]
      else if action = ''upsert'' then [(Upsert, model, args)]
      else if action = ''createMany'' then [(CreateMany, model, args)]
      else [])"

section \<open>Properties of the value operations\<close>

lemma and_then_Inl [simp]: "and_then (Inl e) rest = Inl e"
  by (simp add: and_then_def)

lemma and_then_Inr [simp]: "and_then (Inr x) rest = rest x"
  by (simp add: and_then_def)

lemma and_then_eq_Inr:
  "and_then r rest = Inr y \<longleftrightarrow> (\<exists>x. r = Inr x \<and> rest x = Inr y)"
  by (cases r) simp_all

subsection \<open>Properties of objects\<close>

lemma in_op_Inr: "in_op k d = Inr b \<longleftrightarrow> (\<exists>ps. own_props d = Some ps \<and> b = (map_of ps k \<noteq> None))"
  by (auto simp: in_op_def split: option.splits)

lemma in_op_absent_prop: "in_op k d = Inr False \<Longrightarrow> prop_of d k = JUndefined"
  by (auto simp: in_op_def prop_of_def split: option.splits)

lemma in_op_not_nullish: "in_op k d = Inr b \<Longrightarrow> \<not> nullish d"
  by (cases d) (simp_all add: in_op_def)

lemma set_prop_Inr:
  "set_prop d k v = Inr d' \<longleftrightarrow>
     (\<exists>ps. d = JObj ps \<and> d' = JObj (AList.update k v ps)) \<or>
     (\<exists>xs ps. d = JArr xs ps \<and> d' = JArr xs (AList.update k v ps))"
  by (cases d) auto

lemma set_prop_defined: "in_op k' d = Inr b \<Longrightarrow> \<exists>d'. set_prop d k v = Inr d'"
  by (cases d) (simp_all add: in_op_def)

lemma set_prop_in_op:
  "set_prop d k v = Inr d' \<Longrightarrow> in_op k' d' = Inr (k' = k \<or> in_op k' d = Inr True)"
  by (cases d) (auto simp: in_op_def update_conv')

lemma set_prop_prop_of:
  "set_prop d k v = Inr d' \<Longrightarrow> prop_of d' k' = (if k' = k then v else prop_of d k')"
  by (cases d) (auto simp: prop_of_def update_conv')

lemma store_back_cases:
  "store_back d k v = d \<and> in_op k d \<noteq> Inr True \<or> in_op k d = Inr True \<and> set_prop d k v = Inr (store_back d k v)"
  by (cases d) (auto simp: in_op_def)

lemma store_back_in_op: "in_op k' (store_back d k v) = in_op k' d"
  using store_back_cases [of d k v] set_prop_in_op [of d k v "store_back d k v" k']
  by (cases "in_op k' d") (auto simp: in_op_def split: option.splits)

lemma store_back_prop_of_other: "k' \<noteq> k \<Longrightarrow> prop_of (store_back d k v) k' = prop_of d k'"
  using store_back_cases [of d k v] set_prop_prop_of [of d k v "store_back d k v" k']
  by auto

lemma store_back_prop_of_same: "in_op k d = Inr True \<Longrightarrow> prop_of (store_back d k v) k = v"
  using store_back_cases [of d k v] set_prop_prop_of [of d k v "store_back d k v" k]
  by auto

lemma store_back_same: "store_back d k (prop_of d k) = d"
  by (cases d) (auto simp: prop_of_def update_triv split: option.splits)

lemma set_prop_new_key_keeps:
  assumes "set_prop d k0 v = Inr d'" "in_op k0 d = Inr False" "in_op k d = Inr True"
  shows "prop_of d' k = prop_of d k"
proof -
  have "k \<noteq> k0" using assms(2,3) by auto
  then show ?thesis using set_prop_prop_of [OF assms(1), of k] by simp
qed

subsection \<open>One default\<close>

lemma requireField_name: "requireField meta model r = Inr rf \<Longrightarrow> name rf = r"
  by (auto simp: requireField_def find_Some_iff split: option.splits)

lemma set_connect_twice:
  assumes "set_prop d r x = Inr d1"
  shows "store_back d1 r y = (case set_prop d r y of Inr d2 \<Rightarrow> d2 | Inl e \<Rightarrow> d1)"
  using assms by (cases d) (auto simp: update_conv')

lemma relation_set_skips:
  assumes "isForeignKey f" "relationField f = Some r" "r \<noteq> []" "in_op r d = Inr True"
  shows "setDefaultValueForModelData this f model d v = Inr d"
  using assms by (simp add: setDefaultValueForModelData_def)

lemma unsafe_sets_scalar:
  assumes "\<forall>r. relationField f = Some r \<and> isForeignKey f \<and> r \<noteq> [] \<longrightarrow> in_op r d = Inr False"
    and "\<not> isForeignKey f \<or> isUnsafeMutate this model d (modelMeta this)"
  shows "setDefaultValueForModelData this f model d v = set_prop d (name f) v"
  using assms by (cases "relationField f") (auto simp: setDefaultValueForModelData_def)

lemma safe_sets_connect:
  assumes "isForeignKey f" "relationField f = Some r" "r \<noteq> []" "in_op r d = Inr False"
    and "\<not> isUnsafeMutate this model d (modelMeta this)"
    and "requireField (modelMeta this) model r = Inr rf"
    and "getOppositeFkFieldName rf f = Some opp" "opp \<noteq> []"
  shows "setDefaultValueForModelData this f model d v =
           set_prop d r (JObj [(''connect'', JObj [(opp, v)])])"
proof -
  have n: "name rf = r" using assms(6) by (rule requireField_name)
  have rel: "get_prop d r = Inr JUndefined"
    using assms(4) by (simp add: get_prop_def in_op_not_nullish in_op_absent_prop)
  obtain d1 where d1: "set_prop d r (JObj [(''connect'', JObj [])]) = Inr d1"
    using set_prop_defined [OF assms(4)] by blast
  obtain d2 where d2: "set_prop d r (JObj [(''connect'', JObj [(opp, v)])]) = Inr d2"
    using set_prop_defined [OF assms(4)] by blast
  have p1: "prop_of d1 r = JObj [(''connect'', JObj [])]"
    using set_prop_prop_of [OF d1, of r] by simp
  have "store_back d1 r (JObj [(''connect'', JObj [(opp, v)])]) = d2"
    using set_connect_twice [OF d1, of "JObj [(''connect'', JObj [(opp, v)])]"] d2 by simp
  then show ?thesis
    using assms n rel d1 d2 p1
    by (simp add: setDefaultValueForModelData_def opt_chain_def)
qed

lemma no_relation_fails:
  assumes "isForeignKey f" "relationField f = None \<or> relationField f = Some []"
    and "\<not> isUnsafeMutate this model d (modelMeta this)"
  shows "setDefaultValueForModelData this f model d v = Inl (Error (no_relation_message (name f)))"
proof (cases "relationField f")
  case None
  then show ?thesis using assms by (simp add: setDefaultValueForModelData_def)
next
  case (Some r)
  then have "r = []" using assms(2) by simp
  then show ?thesis using assms Some by (simp add: setDefaultValueForModelData_def)
qed

lemma no_opposite_fails:
  assumes "isForeignKey f" "relationField f = Some r" "r \<noteq> []" "in_op r d = Inr False"
    and "\<not> isUnsafeMutate this model d (modelMeta this)"
    and "requireField (modelMeta this) model r = Inr rf"
    and "getOppositeFkFieldName rf f = None \<or> getOppositeFkFieldName rf f = Some []"
  shows "setDefaultValueForModelData this f model d v =
           Inl (Error (no_opposite_message (name f) r))"
proof -
  have n: "name rf = r" using assms(6) by (rule requireField_name)
  have rel: "get_prop d r = Inr JUndefined"
    using assms(4) by (simp add: get_prop_def in_op_not_nullish in_op_absent_prop)
  obtain d1 where d1: "set_prop d r (JObj [(''connect'', JObj [])]) = Inr d1"
    using set_prop_defined [OF assms(4)] by blast
  show ?thesis
    using assms n rel d1
    by (auto simp: setDefaultValueForModelData_def opt_chain_def)
qed

lemma require_fails:
  assumes "isForeignKey f" "relationField f = Some r" "r \<noteq> []" "in_op r d = Inr False"
    and "\<not> isUnsafeMutate this model d (modelMeta this)"
    and "requireField (modelMeta this) model r = Inl e"
  shows "setDefaultValueForModelData this f model d v = Inl e"
  using assms by (simp add: setDefaultValueForModelData_def)

text \<open>What a default that has been set has done to the payload.\<close>

lemma setDefault_effect:
  assumes "setDefaultValueForModelData this f model d v = Inr d'"
  shows "d' = d
       \<or> set_prop d (name f) v = Inr d'
       \<or> (\<exists>r x. isForeignKey f \<and> relationField f = Some r \<and> in_op r d = Inr False
                \<and> set_prop d r x = Inr d')"
proof (cases "isForeignKey f \<and> relationField f \<noteq> None \<and> relationField f \<noteq> Some []")
  case False
  then have nb: "\<forall>r. relationField f = Some r \<and> isForeignKey f \<and> r \<noteq> [] \<longrightarrow> in_op r d = Inr False"
    by auto
  show ?thesis
  proof (cases "\<not> isForeignKey f \<or> isUnsafeMutate this model d (modelMeta this)")
    case True
    then show ?thesis using unsafe_sets_scalar [OF nb True] assms by simp
  next
    case f2: False
    then have "relationField f = None \<or> relationField f = Some []" using False by simp
    then show ?thesis using no_relation_fails [of f this model d v] f2 assms by simp
  qed
next
  case True
  then obtain r where r: "isForeignKey f" "relationField f = Some r" "r \<noteq> []"
    by (cases "relationField f") auto
  show ?thesis
  proof (cases "in_op r d")
    case (Inl e)
    then show ?thesis using assms r by (simp add: setDefaultValueForModelData_def)
  next
    case (Inr b)
    show ?thesis
    proof (cases b)
      case True
      then show ?thesis using relation_set_skips [OF r] Inr assms by simp
    next
      case False
      with Inr have absent: "in_op r d = Inr False" by simp
      show ?thesis
      proof (cases "isUnsafeMutate this model d (modelMeta this)")
        case True
        then show ?thesis using unsafe_sets_scalar [of f d this model v] absent r assms by simp
      next
        case unsafe: False
        show ?thesis
        proof (cases "requireField (modelMeta this) model r")
          case (Inl e)
          then show ?thesis using require_fails [OF r absent unsafe] assms by simp
        next
          case rf: (Inr rf)
          show ?thesis
          proof (cases "getOppositeFkFieldName rf f = None \<or> getOppositeFkFieldName rf f = Some []")
            case True
            then show ?thesis using no_opposite_fails [OF r absent unsafe rf] assms by simp
          next
            case False
            then obtain opp where "getOppositeFkFieldName rf f = Some opp" "opp \<noteq> []" by auto
            then show ?thesis using safe_sets_connect [OF r absent unsafe rf] assms r absent by auto
          qed
        qed
      qed
    qed
  qed
qed

subsection \<open>One field of a create payload\<close>

lemma processField_typeDef:
  assumes "isTypeDef f" "processField depth this model f d = Some (Inr d')"
  shows "\<exists>sub. d' = store_back d (name f) sub"
  using assms by (auto simp: processField_def split: sum.splits option.splits)

lemma processField_plain:
  assumes "\<not> isTypeDef f" "processField depth this model f d = Some (Inr d')"
  shows "d' = d
       \<or> (in_op (name f) d = Inr False \<and> defaultValueProvider f \<noteq> None
            \<and> (\<exists>v. setDefaultValueForModelData this f model d v = Inr d'))"
  using assms
  by (auto simp: processField_def and_then_eq_Inr split: if_splits)

lemma processField_effect:
  assumes "processField depth this model f d = Some (Inr d')"
  shows "(isTypeDef f \<and> (\<exists>sub. d' = store_back d (name f) sub))
       \<or> d' = d
       \<or> (\<not> isTypeDef f \<and> in_op (name f) d = Inr False \<and> defaultValueProvider f \<noteq> None
            \<and> (\<exists>v. set_prop d (name f) v = Inr d'))
       \<or> (\<not> isTypeDef f \<and> in_op (name f) d = Inr False \<and> defaultValueProvider f \<noteq> None
            \<and> isForeignKey f
            \<and> (\<exists>r x. relationField f = Some r \<and> in_op r d = Inr False
                  \<and> set_prop d r x = Inr d'))"
proof (cases "isTypeDef f")
  case True
  then show ?thesis using processField_typeDef [OF True assms] by simp
next
  case False
  from processField_plain [OF False assms] show ?thesis
  proof
    assume "d' = d" then show ?thesis by simp
  next
    assume a: "in_op (name f) d = Inr False \<and> defaultValueProvider f \<noteq> None
            \<and> (\<exists>v. setDefaultValueForModelData this f model d v = Inr d')"
    then obtain v where "setDefaultValueForModelData this f model d v = Inr d'" by blast
    from setDefault_effect [OF this] a False show ?thesis by blast
  qed
qed

text \<open>A field keeps the keys of the payload.\<close>

lemma processField_keeps_key:
  assumes "processField depth this model f d = Some (Inr d')" "in_op k d = Inr True"
  shows "in_op k d' = Inr True"
  using processField_effect [OF assms(1)] assms(2)
  by (auto simp: store_back_in_op dest: set_prop_in_op [where k' = k])

text \<open>A field keeps the value at a key of the payload, unless it is the embedded value
  of the field itself.\<close>

lemma processField_keeps_value:
  assumes "processField depth this model f d = Some (Inr d')" "in_op k d = Inr True"
    and "isTypeDef f \<longrightarrow> name f \<noteq> k"
  shows "prop_of d' k = prop_of d k"
  using processField_effect [OF assms(1)] assms(2,3)
  by (auto simp: store_back_prop_of_other dest: set_prop_new_key_keeps [where k = k])

subsection \<open>Reaching a field\<close>

lemma find_by_value_Some:
  "find (\<lambda>(k, v). v = n) m = Some e \<Longrightarrow> e \<in> set m \<and> snd e = n"
  by (induction m) (auto split: if_splits)

lemma find_by_value_None:
  "find (\<lambda>(k, v). v = n) m = None \<longleftrightarrow> n \<notin> snd ` set m"
  by (induction m) auto

lemma getOpposite_Some:
  assumes "getOppositeFkFieldName rf f = Some opp"
  shows "\<exists>m. foreignKeyMapping rf = Some m \<and> (opp, name f) \<in> set m"
proof -
  from assms obtain m e where m: "foreignKeyMapping rf = Some m"
    and e: "find (\<lambda>(k, v). v = name f) m = Some e" and o: "opp = fst e"
    by (auto simp: getOppositeFkFieldName_def split: option.splits)
  have "e \<in> set m \<and> snd e = name f"
    using find_by_value_Some [OF e] .
  then have "(opp, name f) \<in> set m" using o by (cases e) auto
  with m show ?thesis by blast
qed

lemma getOpposite_None:
  "getOppositeFkFieldName rf f = None \<longleftrightarrow>
     (case foreignKeyMapping rf of None \<Rightarrow> True | Some m \<Rightarrow> name f \<notin> snd ` set m)"
proof (cases "foreignKeyMapping rf")
  case None
  then show ?thesis by (simp add: getOppositeFkFieldName_def)
next
  case (Some m)
  show ?thesis
  proof (cases "find (\<lambda>(k, v). v = name f) m")
    case None
    then show ?thesis
      using Some find_by_value_None [of "name f" m] by (simp add: getOppositeFkFieldName_def)
  next
    case (Some e)
    then have "find (\<lambda>(k, v). v = name f) m \<noteq> None" by simp
    then have "name f \<in> snd ` set m" using find_by_value_None [of "name f" m] by simp
    then show ?thesis
      using Some \<open>foreignKeyMapping rf = Some m\<close> by (simp add: getOppositeFkFieldName_def)
  qed
qed

lemma processField_injects:
  assumes "\<not> isTypeDef f" "in_op (name f) d = Inr False" "defaultValueProvider f = Some provider"
    and "truthy (userContext this)" "provider (userContext this) \<noteq> JUndefined"
  shows "processField depth this model f d =
           Some (setDefaultValueForModelData this f model d (provider (userContext this)))"
  using assms by (simp add: processField_def getDefaultValue_def)

lemma for_each_append:
  "for_each body (pre @ rest) d =
     (case for_each body pre d of
        None \<Rightarrow> None
      | Some (Inl e) \<Rightarrow> Some (Inl e)
      | Some (Inr d1) \<Rightarrow> for_each body rest d1)"
  by (induction pre arbitrary: d) (auto split: option.splits sum.splits)

lemma for_each_fails_at:
  assumes "for_each body pre d = Some (Inr d1)" "body f d1 = Some (Inl e)"
  shows "for_each body (pre @ f # post) d = Some (Inl e)"
  using assms by (simp add: for_each_append)

section \<open>Unresolved relations\<close>

text \<open>
  Claim C6. The loop of \<open>processCreatePayload\<close> has reached the foreign key \<open>f\<close>, whose
  default is to be set in a payload that is not unsafe. If \<open>f\<close> names no relation
  field, the call throws an \<open>Error\<close> whose message names \<open>f\<close>; if the relation field
  it names is not in the metadata, the call throws what \<open>requireField\<close> throws; if
  the mapping of the relation field has no entry whose value is the name of \<open>f\<close>, the
  call throws an \<open>Error\<close> whose message names \<open>f\<close> and the relation field. No
  payload is returned.
\<close>

theorem unresolved_relation_is_configuration_error:
  assumes fields: "getFields (modelMeta this) model = Some (pre @ f # post)"
    and reached: "for_each (processField depth this model) pre data0 = Some (Inr data)"
    and f: "\<not> isTypeDef f" "isForeignKey f" "defaultValueProvider f = Some provider"
    and user: "truthy (userContext this)" "provider (userContext this) \<noteq> JUndefined"
    and unset: "in_op (name f) data = Inr False"
    and safe: "\<not> isUnsafeMutate this model data (modelMeta this)"
  shows "(relationField f = None \<or> relationField f = Some [] \<longrightarrow>
            processCreatePayload depth this model data0 =
              Some (Inl (Error (no_relation_message (name f)))))
       \<and> (\<forall>r. relationField f = Some r \<and> r \<noteq> [] \<and> in_op r data = Inr False \<longrightarrow>
            (\<forall>e. requireField (modelMeta this) model r = Inl e \<longrightarrow>
               processCreatePayload depth this model data0 = Some (Inl e))
          \<and> (\<forall>rf. requireField (modelMeta this) model r = Inr rf
                  \<and> (case foreignKeyMapping rf of
                        None \<Rightarrow> True
                      | Some m \<Rightarrow> name f \<notin> snd ` set m) \<longrightarrow>
               processCreatePayload depth this model data0 =
                 Some (Inl (Error (no_opposite_message (name f) r)))))"
proof -
  let ?v = "provider (userContext this)"
  have step: "processField depth this model f data =
                Some (setDefaultValueForModelData this f model data ?v)"
    using processField_injects [OF f(1) unset f(3) user] .
  have at: "setDefaultValueForModelData this f model data ?v = Inl e \<Longrightarrow>
              processCreatePayload depth this model data0 = Some (Inl e)" for e
    using for_each_fails_at [OF reached, of f e post] step fields
    by (simp add: processCreatePayload_def)
  have a: "relationField f = None \<or> relationField f = Some [] \<Longrightarrow>
        processCreatePayload depth this model data0 =
          Some (Inl (Error (no_relation_message (name f))))"
    using no_relation_fails [OF f(2) _ safe] at by blast
  have b: "requireField (modelMeta this) model r = Inl e \<Longrightarrow>
         processCreatePayload depth this model data0 = Some (Inl e)"
    if "relationField f = Some r \<and> r \<noteq> [] \<and> in_op r data = Inr False" for r e
    using require_fails [OF f(2) _ _ _ safe] that at by blast
  have c: "processCreatePayload depth this model data0 =
              Some (Inl (Error (no_opposite_message (name f) r)))"
    if "relationField f = Some r \<and> r \<noteq> [] \<and> in_op r data = Inr False"
      and "requireField (modelMeta this) model r = Inr rf"
      and "case foreignKeyMapping rf of None \<Rightarrow> True | Some m \<Rightarrow> name f \<notin> snd ` set m"
    for r rf
  proof -
    have "getOppositeFkFieldName rf f = None" using that(3) by (simp add: getOpposite_None)
    then show ?thesis
      using no_opposite_fails [OF f(2) _ _ _ safe that(2)] that(1) at by blast
  qed
  show ?thesis using a b c by blast
qed

text \<open>The definitions of the example schema.\<close>

lemmas example_defs =
  handler_def blog_meta_def getFields_def requireField_def getTypeDefInfo_def u1_def
  auth_field_def plain_field_def title_field_def author_field_def authorId_field_def
  meta_field_def note_field_def editor_field_def inner_field_def org_field_def
  orgId_field_def orgTenant_field_def ownerId_field_def owner_field_def

theorem unresolved_relation_is_configuration_error_witness:
  "processCreatePayload 1 (handler u1 False) ''Orphan'' (JObj []) =
     Some (Inl (Error (no_relation_message ''ownerId'')))
   \<and> processCreatePayload 1 (handler u1 False) ''Unmapped'' (JObj []) =
     Some (Inl (Error (no_opposite_message ''ownerId'' ''owner'')))"
proof -
  let ?h = "handler u1 False"
  let ?f = "ownerId_field"
  let ?g = "ownerId_field \<lparr>relationField := Some ''owner''\<rparr>"
  have user: "truthy (userContext ?h)" "auth_field ''id'' (userContext ?h) \<noteq> JUndefined"
    by (simp_all add: example_defs prop_of_def)
  have unset: "in_op (name ?f) (JObj []) = Inr False" "in_op (name ?g) (JObj []) = Inr False"
    by (simp_all add: in_op_def)
  have safe: "\<not> isUnsafeMutate ?h m (JObj []) (modelMeta ?h)" for m
    by (simp add: handler_def)
  have f1: "getFields (modelMeta ?h) ''Orphan'' = Some ([] @ ?f # [])"
    by (simp add: example_defs)
  have r1: "for_each (processField 1 ?h ''Orphan'') [] (JObj []) = Some (Inr (JObj []))"
    by simp
  have p1: "\<not> isTypeDef ?f" "isForeignKey ?f"
    "defaultValueProvider ?f = Some (auth_field ''id'')" "relationField ?f = None"
    by (simp_all add: ownerId_field_def plain_field_def)
  have f2: "getFields (modelMeta ?h) ''Unmapped'' = Some ([owner_field] @ ?g # [])"
    by (simp add: example_defs)
  have r2: "for_each (processField 1 ?h ''Unmapped'') [owner_field] (JObj []) =
              Some (Inr (JObj []))"
    by (simp add: processField_def owner_field_def plain_field_def in_op_def)
  have p2: "\<not> isTypeDef ?g" "isForeignKey ?g"
    "defaultValueProvider ?g = Some (auth_field ''id'')"
    "relationField ?g = Some ''owner'' \<and> ''owner'' \<noteq> [] \<and> in_op ''owner'' (JObj []) = Inr False"
    by (simp_all add: ownerId_field_def plain_field_def in_op_def)
  have q2: "requireField (modelMeta ?h) ''Unmapped'' ''owner'' = Inr owner_field
          \<and> (case foreignKeyMapping owner_field of
                None \<Rightarrow> True
              | Some m \<Rightarrow> name ?g \<notin> snd ` set m)"
    by (simp add: example_defs)
  from unresolved_relation_is_configuration_error
         [OF f1 r1 p1(1,2,3) user unset(1) safe] p1(4)
  have a: "processCreatePayload 1 ?h ''Orphan'' (JObj []) =
             Some (Inl (Error (no_relation_message (name ?f))))"
    by blast
  from unresolved_relation_is_configuration_error
         [OF f2 r2 p2(1,2,3) user unset(2) safe] p2(4) q2
  have b: "processCreatePayload 1 ?h ''Unmapped'' (JObj []) =
             Some (Inl (Error (no_opposite_message (name ?g) ''owner'')))"
    by blast
  from a b show ?thesis by (simp add: ownerId_field_def plain_field_def)
qed

section \<open>The two shapes of a foreign-key default\<close>

text \<open>
  Claim C4. The default \<open>v\<close> of the foreign key \<open>f\<close> is to be set and the relation
  field \<open>r\<close> of \<open>f\<close> is not in the payload. If the payload is unsafe, the payload gets
  \<open>v\<close> at \<open>f\<close> and nothing else. Otherwise, where \<open>opp\<close> is the key of the first entry
  of the relation's mapping whose value is the name of \<open>f\<close>, the payload gets
  \<open>{ connect: { opp: v } }\<close> at \<open>r\<close> and nothing else. The row selected by the scalar
  is the row selected by the \<open>connect\<close>.
\<close>

theorem foreign_key_default_shapes:
  assumes f: "\<not> isTypeDef f" "isForeignKey f" "defaultValueProvider f = Some provider"
      "relationField f = Some r" "r \<noteq> []"
    and user: "truthy (userContext this)" "provider (userContext this) = v" "v \<noteq> JUndefined"
    and unset: "in_op (name f) data = Inr False" "in_op r data = Inr False"
  shows "(isUnsafeMutate this model data (modelMeta this) \<longrightarrow>
            (\<exists>data'. processField depth this model f data = Some (Inr data')
                \<and> set_prop data (name f) v = Inr data'
                \<and> prop_of data' (name f) = v))
       \<and> (\<forall>rf opp. \<not> isUnsafeMutate this model data (modelMeta this)
              \<and> requireField (modelMeta this) model r = Inr rf
              \<and> getOppositeFkFieldName rf f = Some opp \<and> opp \<noteq> [] \<longrightarrow>
            (\<exists>m. foreignKeyMapping rf = Some m \<and> (opp, name f) \<in> set m)
          \<and> (\<exists>data'. processField depth this model f data = Some (Inr data')
                \<and> set_prop data r (JObj [(''connect'', JObj [(opp, v)])]) = Inr data'
                \<and> prop_of (prop_of (prop_of data' r) ''connect'') opp = v
                \<and> (\<forall>scalar. set_prop data (name f) v = Inr scalar \<longrightarrow>
                      connect_reference rf data' = scalar_reference rf f scalar)))"
proof -
  have step: "processField depth this model f data =
                Some (setDefaultValueForModelData this f model data v)"
    using processField_injects [OF f(1) unset(1) f(3) user(1)] user(2,3) by simp
  obtain d1 where d1: "set_prop data (name f) v = Inr d1"
    using set_prop_defined [OF unset(1)] by blast
  have a: "\<exists>data'. processField depth this model f data = Some (Inr data')
                \<and> set_prop data (name f) v = Inr data'
                \<and> prop_of data' (name f) = v"
    if "isUnsafeMutate this model data (modelMeta this)"
  proof -
    have "setDefaultValueForModelData this f model data v = set_prop data (name f) v"
      using unsafe_sets_scalar [of f data this model v] f unset that by simp
    then show ?thesis using step d1 set_prop_prop_of [OF d1, of "name f"] by simp
  qed
  have b: "(\<exists>m. foreignKeyMapping rf = Some m \<and> (opp, name f) \<in> set m)
          \<and> (\<exists>data'. processField depth this model f data = Some (Inr data')
                \<and> set_prop data r (JObj [(''connect'', JObj [(opp, v)])]) = Inr data'
                \<and> prop_of (prop_of (prop_of data' r) ''connect'') opp = v
                \<and> (\<forall>scalar. set_prop data (name f) v = Inr scalar \<longrightarrow>
                      connect_reference rf data' = scalar_reference rf f scalar))"
    if safe: "\<not> isUnsafeMutate this model data (modelMeta this)"
      and rf: "requireField (modelMeta this) model r = Inr rf"
      and opp: "getOppositeFkFieldName rf f = Some opp" "opp \<noteq> []"
    for rf opp
  proof -
    obtain d2 where d2: "set_prop data r (JObj [(''connect'', JObj [(opp, v)])]) = Inr d2"
      using set_prop_defined [OF unset(2)] by blast
    have run: "processField depth this model f data = Some (Inr d2)"
      using safe_sets_connect [OF f(2,4,5) unset(2) safe rf opp] step d2 by simp
    have at_r: "prop_of d2 r = JObj [(''connect'', JObj [(opp, v)])]"
      using set_prop_prop_of [OF d2, of r] by simp
    have n: "name rf = r" using rf by (rule requireField_name)
    have at_opp: "prop_of (prop_of (prop_of d2 r) ''connect'') opp = v"
      using at_r by (simp add: prop_of_def)
    have conn: "connect_reference rf d2 = Some [(opp, v)]"
      using at_r n by (simp add: connect_reference_def opt_chain_def prop_of_def)
    have "scalar_reference rf f d1 = Some [(opp, v)]"
      using opp(1) set_prop_prop_of [OF d1, of "name f"] by (simp add: scalar_reference_def)
    then have same: "\<forall>scalar. set_prop data (name f) v = Inr scalar \<longrightarrow>
                      connect_reference rf d2 = scalar_reference rf f scalar"
      using conn d1 by simp
    show ?thesis using getOpposite_Some [OF opp(1)] run d2 at_opp same by blast
  qed
  show ?thesis using a b by blast
qed

theorem foreign_key_default_shapes_witness:
  "processField 1 (handler u1 True) ''Post'' authorId_field (JObj [(''title'', JStr ''t'')]) =
     Some (Inr (JObj [(''title'', JStr ''t''), (''authorId'', JStr ''u1'')]))
   \<and> processField 1 (handler u1 False) ''Post'' authorId_field (JObj [(''title'', JStr ''t'')]) =
     Some (Inr (JObj [(''title'', JStr ''t''),
                      (''author'', JObj [(''connect'', JObj [(''id'', JStr ''u1'')])])]))
   \<and> connect_reference author_field
        (JObj [(''title'', JStr ''t''),
               (''author'', JObj [(''connect'', JObj [(''id'', JStr ''u1'')])])]) =
      scalar_reference author_field authorId_field
        (JObj [(''title'', JStr ''t''), (''authorId'', JStr ''u1'')])"
proof -
  let ?d = "JObj [(''title'', JStr ''t'')]"
  let ?f = "authorId_field"
  have f: "\<not> isTypeDef ?f" "isForeignKey ?f" "defaultValueProvider ?f = Some (auth_field ''id'')"
      "relationField ?f = Some ''author''" "''author'' \<noteq> []"
    by (simp_all add: authorId_field_def plain_field_def)
  have user: "truthy (userContext (handler u1 b))"
      "auth_field ''id'' (userContext (handler u1 b)) = JStr ''u1''" "JStr ''u1'' \<noteq> JUndefined" for b
    by (simp_all add: example_defs prop_of_def)
  have unset: "in_op (name ?f) ?d = Inr False" "in_op ''author'' ?d = Inr False"
    by (simp_all add: in_op_def authorId_field_def plain_field_def)
  have unsafe: "isUnsafeMutate (handler u1 True) ''Post'' ?d (modelMeta (handler u1 True))"
    by (simp add: handler_def)
  have safe: "\<not> isUnsafeMutate (handler u1 False) ''Post'' ?d (modelMeta (handler u1 False))
      \<and> requireField (modelMeta (handler u1 False)) ''Post'' ''author'' = Inr author_field
      \<and> getOppositeFkFieldName author_field ?f = Some ''id'' \<and> ''id'' \<noteq> []"
    by (simp add: example_defs getOppositeFkFieldName_def)
  have scalar: "set_prop ?d (name ?f) (JStr ''u1'') =
                  Inr (JObj [(''title'', JStr ''t''), (''authorId'', JStr ''u1'')])"
    by (simp add: authorId_field_def plain_field_def)
  from foreign_key_default_shapes [OF f user unset, of True "''Post''" 1] unsafe scalar
  have a: "processField 1 (handler u1 True) ''Post'' ?f ?d =
             Some (Inr (JObj [(''title'', JStr ''t''), (''authorId'', JStr ''u1'')]))"
    by auto
  from foreign_key_default_shapes [OF f user unset, of False "''Post''" 1] safe scalar
  have b: "\<exists>data'. processField 1 (handler u1 False) ''Post'' ?f ?d = Some (Inr data')
             \<and> set_prop ?d ''author'' (JObj [(''connect'', JObj [(''id'', JStr ''u1'')])]) = Inr data'
             \<and> connect_reference author_field data' =
                 scalar_reference author_field ?f
                   (JObj [(''title'', JStr ''t''), (''authorId'', JStr ''u1'')])"
    by blast
  from a b show ?thesis by auto
qed

section \<open>Properties of the loops\<close>

lemma for_each_Cons_Inr:
  "for_each body (g # fs) d = Some (Inr d') \<longleftrightarrow>
     (\<exists>d1. body g d = Some (Inr d1) \<and> for_each body fs d1 = Some (Inr d'))"
proof (cases "body g d")
  case None
  then show ?thesis by simp
next
  case (Some r)
  then show ?thesis by (cases r) simp_all
qed


lemma for_each_invariant:
  "for_each body fs d = Some (Inr d') \<Longrightarrow> P d \<Longrightarrow>
   (\<forall>g \<in> set fs. \<forall>x y. P x \<and> body g x = Some (Inr y) \<longrightarrow> P y) \<Longrightarrow> P d'"
proof (induction fs arbitrary: d)
  case Nil
  then show ?case by simp
next
  case (Cons g fs)
  from Cons.prems(1) obtain d1 where d1: "body g d = Some (Inr d1)"
    and rest: "for_each body fs d1 = Some (Inr d')"
    unfolding for_each_Cons_Inr by blast
  have "P d1" using Cons.prems(2,3) d1 by (meson list.set_intros(1))
  moreover have "\<forall>g \<in> set fs. \<forall>x y. P x \<and> body g x = Some (Inr y) \<longrightarrow> P y"
    using Cons.prems(3) by (meson list.set_intros(2))
  ultimately show ?case using rest by (rule Cons.IH [rotated])
qed

lemma for_items_nth:
  assumes "for_items body xs = Some (Inr ys)"
  shows "length ys = length xs \<and> (\<forall>i < length xs. body (xs ! i) = Some (Inr (ys ! i)))"
  using assms
proof (induction xs arbitrary: ys)
  case Nil
  then show ?case by simp
next
  case (Cons x xs)
  from Cons.prems obtain y zs where y: "body x = Some (Inr y)"
    and zs: "for_items body xs = Some (Inr zs)" and ys: "ys = y # zs"
    by (auto split: option.splits sum.splits)
  have ih: "length zs = length xs \<and> (\<forall>i < length xs. body (xs ! i) = Some (Inr (zs ! i)))"
    using Cons.IH [OF zs] .
  show ?case
  proof (intro conjI allI impI)
    show "length ys = length (x # xs)" using ih ys by simp
  next
    fix i assume "i < length (x # xs)"
    then show "body ((x # xs) ! i) = Some (Inr (ys ! i))"
      using ih y ys by (cases i) simp_all
  qed
qed

lemma for_items_unchanged:
  assumes "\<forall>x \<in> set xs. body x = Some (Inr x)"
  shows "for_items body xs = Some (Inr xs)"
  using assms by (induction xs) simp_all

section \<open>Walks of values that are no objects\<close>

lemma not_object_guard:
  "own_props v = None \<Longrightarrow> \<not> truthy v \<or> (\<not> typeof_object v \<and> \<not> isArray v)"
  by (cases v) simp_all

lemma not_object_item: "own_props v = None \<Longrightarrow> \<not> truthy v \<or> \<not> typeof_object v"
  by (cases v) simp_all

lemma typeDefItem_not_object:
  "own_props item = None \<Longrightarrow> typeDefItem recurse this typeDef item = Some (Inr item)"
  using not_object_item [of item] by (auto simp: typeDefItem_def)

lemma typeDefData_not_object:
  "own_props v = None \<Longrightarrow> typeDefData recurse this t v = Some (Inr v)"
  using not_object_guard [of v] by (auto simp: typeDefData_def)

lemma typeDefData_unknown:
  "getTypeDefInfo (modelMeta this) t = None \<Longrightarrow> typeDefData recurse this t v = Some (Inr v)"
  by (simp add: typeDefData_def)

lemma typeDefData_array:
  assumes "typeDefData recurse this t (JArr items ps) = Some (Inr d')"
  shows "\<exists>items'. d' = JArr items' ps \<and> length items' = length items
           \<and> (\<forall>i < length items. own_props (items ! i) = None \<longrightarrow> items' ! i = items ! i)"
proof (cases "getTypeDefInfo (modelMeta this) t")
  case None
  then have "d' = JArr items ps" using assms by (simp add: typeDefData_def)
  then show ?thesis by simp
next
  case (Some typeDef)
  with assms obtain items' where run: "for_items (typeDefItem recurse this typeDef) items = Some (Inr items')"
    and d': "d' = JArr items' ps"
    by (auto simp: typeDefData_def split: option.splits sum.splits)
  have "items' ! i = items ! i" if "i < length items" "own_props (items ! i) = None" for i
    using for_items_nth [OF run] that typeDefItem_not_object [OF that(2), of recurse this typeDef]
    by simp
  then show ?thesis using d' for_items_nth [OF run] by simp
qed

lemma typeDefData_array_of_scalars:
  assumes "\<forall>x \<in> set items. own_props x = None"
  shows "typeDefData recurse this t (JArr items ps) = Some (Inr (JArr items ps))"
proof (cases "getTypeDefInfo (modelMeta this) t")
  case None
  then show ?thesis by (simp add: typeDefData_def)
next
  case (Some typeDef)
  have "for_items (typeDefItem recurse this typeDef) items = Some (Inr items)"
    using assms by (intro for_items_unchanged) (simp add: typeDefItem_not_object)
  then show ?thesis using Some by (simp add: typeDefData_def)
qed

lemma processField_typeDef_unchanged:
  assumes "isTypeDef f" "\<not> nullish data"
    and "setDefaultValueForTypeDefData depth this (type f) (prop_of data (name f)) =
           Some (Inr (prop_of data (name f)))"
  shows "processField depth this model f data = Some (Inr data)"
  using assms by (simp add: processField_def get_prop_def store_back_same)


lemma set_prop_other_key:
  assumes "set_prop d k0 v = Inr d'" "k \<noteq> k0"
  shows "in_op k d' = in_op k d \<and> prop_of d' k = prop_of d k"
  using assms by (cases d) (auto simp: in_op_def prop_of_def update_conv')

text \<open>A field leaves alone a key that is neither its name nor its relation.\<close>

lemma processField_other_key:
  assumes "processField depth this model g d = Some (Inr d')" "name g \<noteq> k"
    and "\<not> (isForeignKey g \<and> relationField g = Some k)"
  shows "in_op k d' = in_op k d \<and> prop_of d' k = prop_of d k"
proof -
  have a: "in_op k (store_back d (name g) sub) = in_op k d
         \<and> prop_of (store_back d (name g) sub) k = prop_of d k" for sub
    using assms(2) by (simp add: store_back_in_op store_back_prop_of_other)
  have b: "set_prop d (name g) v = Inr d' \<Longrightarrow> ?thesis" for v
    using set_prop_other_key [of d "name g" v d' k] assms(2) by simp
  have c: "isForeignKey g \<Longrightarrow> relationField g = Some r \<Longrightarrow> set_prop d r x = Inr d' \<Longrightarrow> ?thesis" for r x
    using set_prop_other_key [of d r x d' k] assms(3) by auto
  from processField_effect [OF assms(1)] a b c show ?thesis by blast
qed

lemma processField_typeDef_not_object:
  assumes "isTypeDef f" "own_props (prop_of d (name f)) = None"
    and "processField depth this model f d = Some (Inr d')"
  shows "d' = d"
proof (cases depth)
  case 0
  then show ?thesis using assms by (auto simp: processField_def split: sum.splits)
next
  case (Suc n)
  have "setDefaultValueForTypeDefData (Suc n) this (type f) (prop_of d (name f)) =
          Some (Inr (prop_of d (name f)))"
    using typeDefData_not_object [OF assms(2)] by simp
  then show ?thesis
    using assms Suc by (auto simp: processField_def get_prop_def store_back_same split: if_splits)
qed

lemma processCreatePayload_fields:
  "getFields (modelMeta this) model = Some fs \<Longrightarrow>
     processCreatePayload depth this model d = for_each (processField depth this model) fs d"
  by (simp add: processCreatePayload_def)

lemma distinct_names:
  assumes "distinct (map name fs)" "g \<in> set fs" "f \<in> set fs" "name g = name f"
  shows "g = f"
  using assms by (meson distinct_map inj_onD)

section \<open>Embedded values that are absent or no objects\<close>

text \<open>
  Claim C9. A type-def field whose value in the payload is no object (the key is absent,
  or holds \<open>null\<close>, \<open>undefined\<close> or a scalar) leaves the payload as it is and throws
  nothing, and so does a field of a type-def that the metadata does not know. In an
  embedded array, the elements that are no objects stay as they are, and an array of
  such elements throws nothing. After \<open>processCreatePayload\<close> the payload holds at the
  key of such a field what it held before, and the key is absent if it was.
\<close>

theorem embedded_value_not_object_skipped:
  "(isTypeDef f \<and> \<not> nullish data \<and> own_props (prop_of data (name f)) = None \<longrightarrow>
      processField (Suc depth) this model f data = Some (Inr data))
   \<and> (isTypeDef f \<and> in_op (name f) data = Inr False \<longrightarrow>
      processField (Suc depth) this model f data = Some (Inr data))
   \<and> (isTypeDef f \<and> \<not> nullish data \<and> getTypeDefInfo (modelMeta this) (type f) = None \<longrightarrow>
      processField (Suc depth) this model f data = Some (Inr data))
   \<and> ((\<forall>x \<in> set items. own_props x = None) \<longrightarrow>
      setDefaultValueForTypeDefData (Suc depth) this t (JArr items ps) =
        Some (Inr (JArr items ps)))
   \<and> (\<forall>d'. setDefaultValueForTypeDefData depth this t (JArr items ps) = Some (Inr d') \<longrightarrow>
        (\<exists>items'. d' = JArr items' ps \<and> length items' = length items
           \<and> (\<forall>i < length items. own_props (items ! i) = None \<longrightarrow> items' ! i = items ! i)))
   \<and> (\<forall>fs data'. getFields (modelMeta this) model = Some fs \<and> well_formed_fields fs
          \<and> f \<in> set fs \<and> isTypeDef f \<and> own_props (prop_of data (name f)) = None
          \<and> processCreatePayload depth this model data = Some (Inr data') \<longrightarrow>
        in_op (name f) data' = in_op (name f) data
          \<and> prop_of data' (name f) = prop_of data (name f))"
proof (intro conjI allI impI)
  assume a: "isTypeDef f \<and> \<not> nullish data \<and> own_props (prop_of data (name f)) = None"
  then have "setDefaultValueForTypeDefData (Suc depth) this (type f) (prop_of data (name f)) =
               Some (Inr (prop_of data (name f)))"
    by (simp add: typeDefData_not_object)
  then show "processField (Suc depth) this model f data = Some (Inr data)"
    using a processField_typeDef_unchanged by blast
next
  assume a: "isTypeDef f \<and> in_op (name f) data = Inr False"
  then have n: "\<not> nullish data" and u: "prop_of data (name f) = JUndefined"
    using in_op_not_nullish in_op_absent_prop by blast+
  have "setDefaultValueForTypeDefData (Suc depth) this (type f) (prop_of data (name f)) =
               Some (Inr (prop_of data (name f)))"
    using u by (simp add: typeDefData_not_object)
  then show "processField (Suc depth) this model f data = Some (Inr data)"
    using a n processField_typeDef_unchanged by blast
next
  assume a: "isTypeDef f \<and> \<not> nullish data \<and> getTypeDefInfo (modelMeta this) (type f) = None"
  then have "setDefaultValueForTypeDefData (Suc depth) this (type f) (prop_of data (name f)) =
               Some (Inr (prop_of data (name f)))"
    by (simp add: typeDefData_unknown)
  then show "processField (Suc depth) this model f data = Some (Inr data)"
    using a processField_typeDef_unchanged by blast
next
  assume "\<forall>x \<in> set items. own_props x = None"
  then show "setDefaultValueForTypeDefData (Suc depth) this t (JArr items ps) =
               Some (Inr (JArr items ps))"
    by (simp add: typeDefData_array_of_scalars)
next
  fix d' assume run: "setDefaultValueForTypeDefData depth this t (JArr items ps) = Some (Inr d')"
  show "\<exists>items'. d' = JArr items' ps \<and> length items' = length items
           \<and> (\<forall>i < length items. own_props (items ! i) = None \<longrightarrow> items' ! i = items ! i)"
  proof (cases depth)
    case 0
    then show ?thesis using run by simp
  next
    case (Suc n)
    then show ?thesis using run typeDefData_array [of "setDefaultValueForTypeDefData n this"] by simp
  qed
next
  fix fs data'
  assume a: "getFields (modelMeta this) model = Some fs \<and> well_formed_fields fs
          \<and> f \<in> set fs \<and> isTypeDef f \<and> own_props (prop_of data (name f)) = None
          \<and> processCreatePayload depth this model data = Some (Inr data')"
  let ?k = "name f"
  let ?P = "\<lambda>x. in_op ?k x = in_op ?k data \<and> prop_of x ?k = prop_of data ?k"
  have "getFields (modelMeta this) model = Some fs"
    and "processCreatePayload depth this model data = Some (Inr data')"
    using a by blast+
  then have run: "for_each (processField depth this model) fs data = Some (Inr data')"
    by (simp add: processCreatePayload_fields)
  have wf: "distinct (map name fs)"
    and rel: "\<forall>g \<in> set fs. \<forall>x \<in> set fs. isForeignKey g \<and> relationField g = Some (name x)
                \<longrightarrow> \<not> isTypeDef x \<and> defaultValueProvider x = None"
    using a unfolding well_formed_fields_def by blast+
  have step: "?P y" if g: "g \<in> set fs" and x: "?P x"
    and y: "processField depth this model g x = Some (Inr y)" for g x y
  proof (cases "name g = ?k")
    case True
    then have "g = f" using distinct_names [OF wf g] a by blast
    then have "y = x" using processField_typeDef_not_object [of f x depth this model y] a x y by simp
    then show ?thesis using x by simp
  next
    case False
    have "\<not> (isForeignKey g \<and> relationField g = Some ?k)" using rel g a by blast
    then show ?thesis using processField_other_key [OF y False] x by simp
  qed
  have "?P data'"
    by (rule for_each_invariant [OF run, where P = ?P]) (use step in blast)+
  then show "in_op (name f) data' = in_op (name f) data" "prop_of data' (name f) = prop_of data (name f)"
    by simp_all
qed


theorem embedded_value_not_object_skipped_witness:
  "processField 1 (handler JUndefined False) ''Post'' meta_field (JObj [(''meta'', JNull)]) =
     Some (Inr (JObj [(''meta'', JNull)]))
   \<and> processField 1 (handler JUndefined False) ''Post'' meta_field (JObj [(''title'', JStr ''t'')]) =
     Some (Inr (JObj [(''title'', JStr ''t'')]))
   \<and> setDefaultValueForTypeDefData 1 (handler JUndefined False) ''Meta'' (JArr [JNum 5, JNull] []) =
     Some (Inr (JArr [JNum 5, JNull] []))
   \<and> processCreatePayload 1 (handler u1 False) ''Post''
        (JObj [(''title'', JStr ''t''), (''meta'', JStr ''x'')]) =
     Some (Inr (JObj [(''title'', JStr ''t''), (''meta'', JStr ''x''),
                      (''author'', JObj [(''connect'', JObj [(''id'', JStr ''u1'')])])]))
   \<and> prop_of (JObj [(''title'', JStr ''t''), (''meta'', JStr ''x''),
                    (''author'', JObj [(''connect'', JObj [(''id'', JStr ''u1'')])])]) ''meta'' =
     JStr ''x''"
proof -
  let ?anon = "handler JUndefined False"
  let ?fs = "[title_field, author_field, authorId_field, meta_field]"
  let ?d = "JObj [(''title'', JStr ''t''), (''meta'', JStr ''x'')]"
  let ?d' = "JObj [(''title'', JStr ''t''), (''meta'', JStr ''x''),
                   (''author'', JObj [(''connect'', JObj [(''id'', JStr ''u1'')])])]"
  have m: "isTypeDef meta_field" "name meta_field = ''meta''"
    by (simp_all add: meta_field_def plain_field_def)
  have h1: "isTypeDef meta_field \<and> \<not> nullish (JObj [(''meta'', JNull)])
          \<and> own_props (prop_of (JObj [(''meta'', JNull)]) (name meta_field)) = None"
    using m by (simp add: prop_of_def)
  have h2: "isTypeDef meta_field \<and> in_op (name meta_field) (JObj [(''title'', JStr ''t'')]) = Inr False"
    using m by (simp add: in_op_def)
  have h4: "\<forall>x \<in> set [JNum 5, JNull]. own_props x = None"
    by simp
  have run: "processCreatePayload 1 (handler u1 False) ''Post'' ?d = Some (Inr ?d')"
    by code_simp
  have h6: "getFields (modelMeta (handler u1 False)) ''Post'' = Some ?fs \<and> well_formed_fields ?fs
          \<and> meta_field \<in> set ?fs \<and> isTypeDef meta_field
          \<and> own_props (prop_of ?d (name meta_field)) = None"
    using m by (simp add: well_formed_fields_def example_defs prop_of_def)
  from embedded_value_not_object_skipped
         [of meta_field "JObj [(''meta'', JNull)]" 0 ?anon "''Post''" "[]" "''Meta''" "[]"] h1
  have a: "processField 1 ?anon ''Post'' meta_field (JObj [(''meta'', JNull)]) =
             Some (Inr (JObj [(''meta'', JNull)]))"
    unfolding One_nat_def by blast
  from embedded_value_not_object_skipped
         [of meta_field "JObj [(''title'', JStr ''t'')]" 0 ?anon "''Post''" "[JNum 5, JNull]"
             "''Meta''" "[]"] h2 h4
  have b: "processField 1 ?anon ''Post'' meta_field (JObj [(''title'', JStr ''t'')]) =
             Some (Inr (JObj [(''title'', JStr ''t'')]))"
    and c: "setDefaultValueForTypeDefData 1 ?anon ''Meta'' (JArr [JNum 5, JNull] []) =
             Some (Inr (JArr [JNum 5, JNull] []))"
    unfolding One_nat_def by blast+
  from embedded_value_not_object_skipped
         [of meta_field ?d 1 "handler u1 False" "''Post''" "[]" "''Meta''" "[]"] h6 run
  have d: "prop_of ?d' (name meta_field) = prop_of ?d (name meta_field)"
    by blast
  have "prop_of ?d (name meta_field) = JStr ''x''"
    using m by (simp add: prop_of_def)
  with a b c d run m show ?thesis by simp
qed

section \<open>Fields without a default\<close>

text \<open>
  Claim C2. \<open>processCreatePayload\<close> skips a field of the model that has no
  \<open>defaultValueProvider\<close>; the walk of an embedded value has no such test. The field
  \<open>note\<close> of the type-def \<open>Meta\<close> has no \<open>defaultValueProvider\<close>; the payload below sets
  every field that has one; the caller has no identity. The field \<open>title\<close> of the model
  is skipped when absent, as the second payload shows; for the field \<open>note\<close> of the
  embedded value the call throws a validation error that names it.
\<close>

theorem embedded_field_without_provider_throws:
  "defaultValueProvider note_field = None
   \<and> processCreatePayload 1 (handler JUndefined False) ''Post''
        (JObj [(''title'', JStr ''t''), (''authorId'', JStr ''u2''),
               (''meta'', JObj [(''editor'', JStr ''e'')])]) =
      Some (Inl (PrismaClientValidationError (user_context_message ''note'')))
   \<and> processCreatePayload 1 (handler JUndefined False) ''Post''
        (JObj [(''authorId'', JStr ''u2'')]) =
      Some (Inr (JObj [(''authorId'', JStr ''u2'')]))"
  by code_simp

section \<open>The payload after a run that returns\<close>

lemma run_keeps_value:
  assumes "for_each (processField depth this model) fs d = Some (Inr d')"
    and "in_op k d = Inr True" "\<forall>g \<in> set fs. isTypeDef g \<longrightarrow> name g \<noteq> k"
  shows "in_op k d' = Inr True \<and> prop_of d' k = prop_of d k"
proof -
  let ?P = "\<lambda>x. in_op k x = Inr True \<and> prop_of x k = prop_of d k"
  have "?P y" if "g \<in> set fs" "?P x" "processField depth this model g x = Some (Inr y)" for g x y
    using that assms(3) processField_keeps_key [OF that(3), of k]
      processField_keeps_value [OF that(3), of k] by simp
  then have "\<forall>g \<in> set fs. \<forall>x y. ?P x \<and> processField depth this model g x = Some (Inr y) \<longrightarrow> ?P y"
    by blast
  from for_each_invariant [OF assms(1), where P = ?P, OF _ this] assms(2)
  show ?thesis by simp
qed

lemma processField_relation_set:
  assumes "\<not> isTypeDef f" "isForeignKey f" "relationField f = Some r" "r \<noteq> []"
    and "in_op r d = Inr True" "processField depth this model f d = Some (Inr d')"
  shows "d' = d"
  using processField_plain [OF assms(1,6)] relation_set_skips [OF assms(2,3,4,5), of this model]
  by auto

section \<open>Fields that the payload sets\<close>

text \<open>
  Claim C8, as the code has it. A key that the create payload holds, and that is not the
  name of a type-def field of the model, holds after \<open>processCreatePayload\<close> what it
  held before, whether or not a field of that name has a default; and it still does
  after a second run on the processed payload. (The value of a type-def field that the
  payload sets is walked, and defaults are set inside it.)
\<close>

theorem set_field_is_kept:
  assumes "getFields (modelMeta this) model = Some fs"
    and "in_op k data = Inr True"
    and "\<forall>g \<in> set fs. isTypeDef g \<longrightarrow> name g \<noteq> k"
    and "processCreatePayload depth this model data = Some (Inr data')"
  shows "in_op k data' = Inr True \<and> prop_of data' k = prop_of data k
       \<and> (\<forall>data''. processCreatePayload depth this model data' = Some (Inr data'') \<longrightarrow>
            in_op k data'' = Inr True \<and> prop_of data'' k = prop_of data k)"
proof -
  have run: "for_each (processField depth this model) fs data = Some (Inr data')"
    using assms(1,4) by (simp add: processCreatePayload_fields)
  have first: "in_op k data' = Inr True \<and> prop_of data' k = prop_of data k"
    using run_keeps_value [OF run assms(2,3)] .
  have "in_op k data'' = Inr True \<and> prop_of data'' k = prop_of data k"
    if "processCreatePayload depth this model data' = Some (Inr data'')" for data''
  proof -
    have "for_each (processField depth this model) fs data' = Some (Inr data'')"
      using assms(1) that by (simp add: processCreatePayload_fields)
    from run_keeps_value [OF this _ assms(3)] first show ?thesis by simp
  qed
  with first show ?thesis by blast
qed

theorem set_field_is_kept_witness:
  "processCreatePayload 1 (handler u1 False) ''Post''
     (JObj [(''title'', JStr ''t''), (''authorId'', JStr ''u2'')]) =
     Some (Inr (JObj [(''title'', JStr ''t''), (''authorId'', JStr ''u2'')]))
   \<and> prop_of (JObj [(''title'', JStr ''t''), (''authorId'', JStr ''u2'')]) ''authorId'' =
       JStr ''u2''"
proof -
  let ?d = "JObj [(''title'', JStr ''t''), (''authorId'', JStr ''u2'')]"
  let ?fs = "[title_field, author_field, authorId_field, meta_field]"
  have fs: "getFields (modelMeta (handler u1 False)) ''Post'' = Some ?fs"
    by (simp add: example_defs)
  have k: "in_op ''authorId'' ?d = Inr True"
    by (simp add: in_op_def)
  have td: "\<forall>g \<in> set ?fs. isTypeDef g \<longrightarrow> name g \<noteq> ''authorId''"
    by (simp add: example_defs)
  have run: "processCreatePayload 1 (handler u1 False) ''Post'' ?d = Some (Inr ?d)"
    by code_simp
  from set_field_is_kept [OF fs k td run]
  have "prop_of ?d ''authorId'' = prop_of ?d ''authorId''" by blast
  moreover have "prop_of ?d ''authorId'' = JStr ''u2''" by (simp add: prop_of_def)
  ultimately show ?thesis using run by simp
qed

theorem set_typeDef_field_is_changed:
  "in_op ''meta'' (JObj [(''authorId'', JStr ''u2''), (''meta'', JObj [(''note'', JStr ''n'')])]) =
     Inr True
   \<and> processCreatePayload 2 (handler u1 False) ''Post''
       (JObj [(''authorId'', JStr ''u2''), (''meta'', JObj [(''note'', JStr ''n'')])]) =
     Some (Inr (JObj [(''authorId'', JStr ''u2''),
                      (''meta'', JObj [(''note'', JStr ''n''), (''editor'', JStr ''u1'')])]))
   \<and> prop_of (JObj [(''authorId'', JStr ''u2''),
                    (''meta'', JObj [(''note'', JStr ''n''), (''editor'', JStr ''u1'')])]) ''meta''
     \<noteq> prop_of (JObj [(''authorId'', JStr ''u2''), (''meta'', JObj [(''note'', JStr ''n'')])])
          ''meta''"
  by code_simp

section \<open>A relation that the payload sets\<close>

text \<open>
  Claim C5. The foreign key \<open>f\<close> has a default and is not set in the payload, and the
  payload holds its relation field \<open>r\<close>. Then \<open>setDefaultValueForModelData\<close> leaves the
  payload as it is, whatever the default; and after \<open>processCreatePayload\<close> the payload
  holds at \<open>r\<close> what it held before and still has no key \<open>f\<close>.
\<close>

theorem relation_set_blocks_default:
  assumes fields: "getFields (modelMeta this) model = Some fs"
    and wf: "well_formed_fields fs"
    and f: "f \<in> set fs" "\<not> isTypeDef f" "isForeignKey f" "defaultValueProvider f = Some provider"
      "relationField f = Some r" "r \<noteq> []"
    and payload: "in_op r data = Inr True" "in_op (name f) data = Inr False"
    and run: "processCreatePayload depth this model data = Some (Inr data')"
  shows "(\<forall>v. setDefaultValueForModelData this f model data v = Inr data)
       \<and> in_op r data' = Inr True \<and> prop_of data' r = prop_of data r
       \<and> in_op (name f) data' = Inr False"
proof -
  have loop: "for_each (processField depth this model) fs data = Some (Inr data')"
    using fields run by (simp add: processCreatePayload_fields)
  have names: "distinct (map name fs)"
    and rel: "\<forall>g \<in> set fs. \<forall>x \<in> set fs. isForeignKey g \<and> relationField g = Some (name x)
                \<longrightarrow> \<not> isTypeDef x \<and> defaultValueProvider x = None"
    using wf unfolding well_formed_fields_def by blast+
  have no_typeDef: "\<forall>g \<in> set fs. isTypeDef g \<longrightarrow> name g \<noteq> r"
    using rel f by blast
  have at_r: "in_op r data' = Inr True \<and> prop_of data' r = prop_of data r"
    using run_keeps_value [OF loop payload(1) no_typeDef] .
  let ?P = "\<lambda>x. in_op r x = Inr True \<and> in_op (name f) x = Inr False"
  have step: "?P y" if g: "g \<in> set fs" and x: "?P x"
    and y: "processField depth this model g x = Some (Inr y)" for g x y
  proof (cases "name g = name f")
    case True
    then have "g = f" using distinct_names [OF names g f(1)] by simp
    then have "y = x" using processField_relation_set [OF f(2,3,5,6) _ ] x y by blast
    then show ?thesis using x by simp
  next
    case False
    have "\<not> (isForeignKey g \<and> relationField g = Some (name f))"
      using rel g f by fastforce
    then have "in_op (name f) y = in_op (name f) x"
      using processField_other_key [OF y False] by simp
    then show ?thesis using x processField_keeps_key [OF y, of r] by simp
  qed
  then have "\<forall>g \<in> set fs. \<forall>x y. ?P x \<and> processField depth this model g x = Some (Inr y) \<longrightarrow> ?P y"
    by blast
  from for_each_invariant [OF loop, where P = ?P, OF _ this] payload
  have "in_op (name f) data' = Inr False" by simp
  moreover have "\<forall>v. setDefaultValueForModelData this f model data v = Inr data"
    using relation_set_skips [OF f(3,5,6) payload(1)] by simp
  ultimately show ?thesis using at_r by simp
qed

theorem relation_set_blocks_default_witness:
  "processCreatePayload 1 (handler u1 False) ''Post''
     (JObj [(''title'', JStr ''t''),
            (''author'', JObj [(''connect'', JObj [(''id'', JStr ''u2'')])]),
            (''meta'', JNull)]) =
     Some (Inr (JObj [(''title'', JStr ''t''),
            (''author'', JObj [(''connect'', JObj [(''id'', JStr ''u2'')])]),
            (''meta'', JNull)]))
   \<and> in_op ''authorId'' (JObj [(''title'', JStr ''t''),
            (''author'', JObj [(''connect'', JObj [(''id'', JStr ''u2'')])]),
            (''meta'', JNull)]) = Inr False"
proof -
  let ?d = "JObj [(''title'', JStr ''t''),
            (''author'', JObj [(''connect'', JObj [(''id'', JStr ''u2'')])]),
            (''meta'', JNull)]"
  let ?fs = "[title_field, author_field, authorId_field, meta_field]"
  have fs: "getFields (modelMeta (handler u1 False)) ''Post'' = Some ?fs"
    by (simp add: example_defs)
  have wf: "well_formed_fields ?fs"
    by (simp add: well_formed_fields_def example_defs)
  have f: "authorId_field \<in> set ?fs" "\<not> isTypeDef authorId_field" "isForeignKey authorId_field"
      "defaultValueProvider authorId_field = Some (auth_field ''id'')"
      "relationField authorId_field = Some ''author''" "''author'' \<noteq> []"
    by (simp_all add: authorId_field_def plain_field_def)
  have payload: "in_op ''author'' ?d = Inr True" "in_op (name authorId_field) ?d = Inr False"
    by (simp_all add: in_op_def authorId_field_def plain_field_def)
  have run: "processCreatePayload 1 (handler u1 False) ''Post'' ?d = Some (Inr ?d)"
    by code_simp
  from relation_set_blocks_default [OF fs wf f payload run]
  have "in_op (name authorId_field) ?d = Inr False" by blast
  then show ?thesis using run by (simp add: authorId_field_def plain_field_def)
qed

section \<open>The three outcomes of a default\<close>


lemma for_each_append_Inr:
  "for_each body (pre @ rest) d = Some (Inr d') \<longleftrightarrow>
     (\<exists>d1. for_each body pre d = Some (Inr d1) \<and> for_each body rest d1 = Some (Inr d'))"
  by (simp add: for_each_append split: option.splits sum.splits)


text \<open>With a caller identity, a foreign key whose relation is in the payload is passed over.\<close>

lemma processField_passes_over:
  assumes "\<not> isTypeDef g" "isForeignKey g" "relationField g = Some r" "r \<noteq> []"
    and "truthy (userContext this)" "in_op r d = Inr True"
  shows "processField depth this model g d = Some (Inr d)"
proof -
  obtain b where b: "in_op (name g) d = Inr b"
    using assms(6) by (auto simp: in_op_def split: option.splits)
  show ?thesis
    using assms b relation_set_skips [OF assms(2,3,4,6), of this model]
    by (simp add: processField_def getDefaultValue_def)
qed


section \<open>Defaults that are set\<close>





section \<open>Two foreign keys of one relation\<close>

text \<open>
  Claim C10. The loop of \<open>processCreatePayload\<close> has reached the foreign key \<open>f1\<close>,
  whose default \<open>v1\<close> is to be set; its relation field \<open>r\<close> is not in the payload, the
  payload is not unsafe and \<open>opp1\<close> is the opposite key of \<open>f1\<close>. Then every later
  foreign key of \<open>r\<close> leaves alone a payload that holds \<open>r\<close>, and the payload
  returned holds \<open>{ connect: { opp1: v1 } }\<close> at \<open>r\<close>: the \<open>connect\<close> has the key of
  the first foreign key only.
\<close>

theorem later_foreign_keys_are_skipped:
  assumes fields: "getFields (modelMeta this) model = Some (pre @ f1 # rest)"
    and reached: "for_each (processField depth this model) pre data0 = Some (Inr data)"
    and f1: "\<not> isTypeDef f1" "isForeignKey f1" "defaultValueProvider f1 = Some provider"
      "relationField f1 = Some r" "r \<noteq> []"
    and user: "truthy (userContext this)" "provider (userContext this) = v1" "v1 \<noteq> JUndefined"
    and unset: "in_op (name f1) data = Inr False" "in_op r data = Inr False"
    and safe: "\<not> isUnsafeMutate this model data (modelMeta this)"
    and opposite: "requireField (modelMeta this) model r = Inr rf"
      "getOppositeFkFieldName rf f1 = Some opp1" "opp1 \<noteq> []"
    and embedded: "\<forall>g \<in> set rest. isTypeDef g \<longrightarrow> name g \<noteq> r"
    and run: "processCreatePayload depth this model data0 = Some (Inr data')"
  shows "prop_of data' r = JObj [(''connect'', JObj [(opp1, v1)])]
       \<and> (\<forall>f2 \<in> set rest. \<not> isTypeDef f2 \<and> isForeignKey f2 \<and> relationField f2 = Some r \<longrightarrow>
            (\<forall>d. in_op r d = Inr True \<longrightarrow> processField depth this model f2 d = Some (Inr d)))"
proof -
  let ?body = "processField depth this model"
  let ?c = "JObj [(''connect'', JObj [(opp1, v1)])]"
  have "for_each ?body (pre @ f1 # rest) data0 = Some (Inr data')"
    using fields run by (simp add: processCreatePayload_fields)
  then obtain d2 where at: "?body f1 data = Some (Inr d2)"
    and after: "for_each ?body rest d2 = Some (Inr data')"
    unfolding for_each_append_Inr for_each_Cons_Inr using reached by auto
  have "?body f1 data = Some (setDefaultValueForModelData this f1 model data v1)"
    using processField_injects [OF f1(1) unset(1) f1(3) user(1)] user(2,3) by simp
  then have "set_prop data r ?c = Inr d2"
    using safe_sets_connect [OF f1(2,4,5) unset(2) safe opposite] at by simp
  then have "in_op r d2 = Inr True" "prop_of d2 r = ?c"
    using set_prop_in_op [of data r ?c d2 r] set_prop_prop_of [of data r ?c d2 r] by simp_all
  then have "prop_of data' r = ?c"
    using run_keeps_value [OF after _ embedded] by simp
  moreover have "processField depth this model f2 d = Some (Inr d)"
    if "\<not> isTypeDef f2 \<and> isForeignKey f2 \<and> relationField f2 = Some r" "in_op r d = Inr True"
    for f2 d
    using processField_passes_over [of f2 r this d depth model] that f1(5) user(1) by simp
  ultimately show ?thesis by blast
qed

theorem later_foreign_keys_are_skipped_witness:
  "processCreatePayload 1 (handler u1 False) ''Membership'' (JObj []) =
     Some (Inr (JObj [(''org'', JObj [(''connect'', JObj [(''id'', JStr ''o1'')])])]))
   \<and> prop_of (JObj [(''org'', JObj [(''connect'', JObj [(''id'', JStr ''o1'')])])]) ''org'' =
       JObj [(''connect'', JObj [(''id'', JStr ''o1'')])]
   \<and> processField 1 (handler u1 False) ''Membership'' orgTenant_field
        (JObj [(''org'', JObj [(''connect'', JObj [(''id'', JStr ''o1'')])])]) =
       Some (Inr (JObj [(''org'', JObj [(''connect'', JObj [(''id'', JStr ''o1'')])])]))"
proof -
  let ?h = "handler u1 False"
  let ?d' = "JObj [(''org'', JObj [(''connect'', JObj [(''id'', JStr ''o1'')])])]"
  have fs: "getFields (modelMeta ?h) ''Membership'' = Some ([org_field] @ orgId_field # [orgTenant_field])"
    by (simp add: example_defs)
  have reached: "for_each (processField 1 ?h ''Membership'') [org_field] (JObj []) = Some (Inr (JObj []))"
    by (simp add: processField_def org_field_def plain_field_def in_op_def)
  have f1: "\<not> isTypeDef orgId_field" "isForeignKey orgId_field"
      "defaultValueProvider orgId_field = Some (auth_field ''orgId'')"
      "relationField orgId_field = Some ''org''" "''org'' \<noteq> []"
    by (simp_all add: orgId_field_def plain_field_def)
  have user: "truthy (userContext ?h)" "auth_field ''orgId'' (userContext ?h) = JStr ''o1''"
      "JStr ''o1'' \<noteq> JUndefined"
    by (simp_all add: example_defs prop_of_def)
  have unset: "in_op (name orgId_field) (JObj []) = Inr False" "in_op ''org'' (JObj []) = Inr False"
    by (simp_all add: in_op_def)
  have safe: "\<not> isUnsafeMutate ?h ''Membership'' (JObj []) (modelMeta ?h)"
    by (simp add: handler_def)
  have opposite: "requireField (modelMeta ?h) ''Membership'' ''org'' = Inr org_field"
      "getOppositeFkFieldName org_field orgId_field = Some ''id''" "''id'' \<noteq> []"
    by (simp_all add: example_defs getOppositeFkFieldName_def)
  have embedded: "\<forall>g \<in> set [orgTenant_field]. isTypeDef g \<longrightarrow> name g \<noteq> ''org''"
    by (simp add: orgTenant_field_def plain_field_def)
  have run: "processCreatePayload 1 ?h ''Membership'' (JObj []) = Some (Inr ?d')"
    by code_simp
  have f2: "orgTenant_field \<in> set [orgTenant_field]"
      "\<not> isTypeDef orgTenant_field \<and> isForeignKey orgTenant_field
         \<and> relationField orgTenant_field = Some ''org''"
      "in_op ''org'' ?d' = Inr True"
    by (simp_all add: orgTenant_field_def plain_field_def in_op_def)
  from later_foreign_keys_are_skipped
         [OF fs reached f1 user unset safe opposite embedded run] f2
  have "prop_of ?d' ''org'' = JObj [(''connect'', JObj [(''id'', JStr ''o1'')])]"
    and "processField 1 ?h ''Membership'' orgTenant_field ?d' = Some (Inr ?d')"
    by blast+
  then show ?thesis using run by simp
qed

section \<open>Runs without a caller identity\<close>

lemma enumerated_back_same: "enumerated_back d (enumerate_json d) = d"
  by (cases d) simp_all

lemma for_items_same:
  assumes "for_items body xs = Some (Inr ys)"
    and "\<forall>x \<in> set xs. \<forall>y. body x = Some (Inr y) \<longrightarrow> y = x"
  shows "ys = xs"
proof (rule nth_equalityI)
  show "length ys = length xs" using for_items_nth [OF assms(1)] by simp
next
  fix i assume "i < length ys"
  then have i: "i < length xs" using for_items_nth [OF assms(1)] by simp
  then have "body (xs ! i) = Some (Inr (ys ! i))" using for_items_nth [OF assms(1)] by simp
  then show "ys ! i = xs ! i" using assms(2) i by (meson nth_mem)
qed

lemma for_each_same:
  assumes "for_each body fs d = Some (Inr d')"
    and "\<forall>g \<in> set fs. \<forall>x y. body g x = Some (Inr y) \<longrightarrow> y = x"
  shows "d' = d"
proof -
  have "\<forall>g \<in> set fs. \<forall>x y. x = d \<and> body g x = Some (Inr y) \<longrightarrow> y = d"
    using assms(2) by blast
  from for_each_invariant [OF assms(1), where P = "\<lambda>x. x = d", OF _ this]
  show ?thesis by simp
qed

lemma for_each_passes:
  assumes "\<forall>g \<in> set fs. \<exists>y. body g d = Some (Inr y)"
    and "\<forall>g \<in> set fs. \<forall>x y. body g x = Some (Inr y) \<longrightarrow> y = x"
  shows "for_each body fs d = Some (Inr d)"
  using assms
proof (induction fs)
  case Nil
  then show ?case by simp
next
  case (Cons g fs)
  from Cons.prems obtain y where y: "body g d = Some (Inr y)" by (meson list.set_intros(1))
  then have "y = d" using Cons.prems(2) by (meson list.set_intros(1))
  moreover have "for_each body fs d = Some (Inr d)"
    using Cons by (meson list.set_intros(2))
  ultimately show ?case using y by simp
qed

lemma for_items_fails_at:
  assumes "\<forall>x \<in> set before. \<exists>y. body x = Some (Inr y)" "body item = Some (Inl e)"
  shows "for_items body (before @ item # after) = Some (Inl e)"
  using assms
proof (induction before)
  case Nil
  then show ?case by simp
next
  case (Cons x before)
  from Cons.prems obtain y where "body x = Some (Inr y)" by (meson list.set_intros(1))
  moreover have "for_items body (before @ item # after) = Some (Inl e)"
    using Cons by (meson list.set_intros(2))
  ultimately show ?case by simp
qed

lemma getDefaultValue_anonymous:
  "\<not> truthy (userContext this) \<Longrightarrow>
     getDefaultValue this f = Inl (PrismaClientValidationError (user_context_message (name f)))"
  by (simp add: getDefaultValue_def)

lemma typeDefField_anonymous:
  assumes "\<not> truthy (userContext this)"
    and "\<forall>t x y. recurse t x = Some (Inr y) \<longrightarrow> y = x"
    and "typeDefField recurse this g item = Some (Inr item')"
  shows "item' = item"
proof (cases "isTypeDef g")
  case True
  then obtain sub where "recurse (type g) (prop_of item (name g)) = Some (Inr sub)"
    and "item' = store_back item (name g) sub"
    using assms(3) by (auto simp: typeDefField_def split: option.splits sum.splits)
  then show ?thesis using assms(2) store_back_same [of item "name g"] by metis
next
  case False
  then show ?thesis
    using assms(1,3)
    by (auto simp: typeDefField_def and_then_eq_Inr getDefaultValue_anonymous split: if_splits)
qed

lemma typeDefData_anonymous:
  assumes "\<not> truthy (userContext this)"
    and rec: "\<forall>t x y. recurse t x = Some (Inr y) \<longrightarrow> y = x"
    and run: "typeDefData recurse this t d = Some (Inr d')"
  shows "d' = d"
proof (cases "\<not> truthy d \<or> (\<not> typeof_object d \<and> \<not> isArray d)")
  case True
  then show ?thesis using run by (simp add: typeDefData_def)
next
  case False
  then have guard: "typeDefData recurse this t d =
      (case getTypeDefInfo (modelMeta this) t of
         None \<Rightarrow> Some (Inr d)
       | Some typeDef \<Rightarrow>
           (case for_items (typeDefItem recurse this typeDef) (enumerate_json d) of
              None \<Rightarrow> None
            | Some (Inl e) \<Rightarrow> Some (Inl e)
            | Some (Inr items) \<Rightarrow> Some (Inr (enumerated_back d items))))"
    unfolding typeDefData_def by (rule if_not_P)
  show ?thesis
  proof (cases "getTypeDefInfo (modelMeta this) t")
    case None
    then show ?thesis using run guard by simp
  next
    case (Some typeDef)
    with run guard obtain items
      where items: "for_items (typeDefItem recurse this typeDef) (enumerate_json d) = Some (Inr items)"
        and d': "d' = enumerated_back d items"
      by (auto split: option.splits sum.splits)
    have "y = x" if "typeDefItem recurse this typeDef x = Some (Inr y)" for x y
    proof (cases "\<not> truthy x \<or> \<not> typeof_object x")
      case True
      then show ?thesis using that by (simp add: typeDefItem_def)
    next
      case False
      then have "for_each (typeDefField recurse this) typeDef x = Some (Inr y)"
        using that by (simp add: typeDefItem_def)
      then show ?thesis
        using for_each_same [of "typeDefField recurse this" typeDef x y]
          typeDefField_anonymous [OF assms(1) rec] by blast
    qed
    then have "items = enumerate_json d" using for_items_same [OF items] by blast
    then show ?thesis using d' by (simp add: enumerated_back_same)
  qed
qed

lemma setDefaultValueForTypeDefData_anonymous:
  assumes "\<not> truthy (userContext this)"
  shows "setDefaultValueForTypeDefData depth this t d = Some (Inr d') \<Longrightarrow> d' = d"
proof (induction depth arbitrary: t d d')
  case 0
  then show ?case by simp
next
  case (Suc depth)
  have "\<forall>t x y. setDefaultValueForTypeDefData depth this t x = Some (Inr y) \<longrightarrow> y = x"
    using Suc.IH by blast
  from typeDefData_anonymous [OF assms this] Suc.prems show ?case by simp
qed

lemma processField_anonymous:
  assumes "\<not> truthy (userContext this)" "processField depth this model g d = Some (Inr d')"
  shows "d' = d"
proof (cases "isTypeDef g")
  case True
  then obtain sub
    where "setDefaultValueForTypeDefData depth this (type g) (prop_of d (name g)) = Some (Inr sub)"
      and "d' = store_back d (name g) sub"
    using assms(2)
    by (auto simp: processField_def get_prop_def split: option.splits sum.splits if_splits)
  then show ?thesis
    using setDefaultValueForTypeDefData_anonymous [OF assms(1)] store_back_same [of d "name g"]
    by metis
next
  case False
  then show ?thesis
    using assms
    by (auto simp: processField_def and_then_eq_Inr getDefaultValue_anonymous split: if_splits)
qed


section \<open>Defaults without a caller identity\<close>

text \<open>
  Claim C3. The caller identity is absent. The field \<open>f\<close> of the model is no type-def
  field, has a default provider and is not set in the create payload, and every field
  before \<open>f\<close> returns on that payload. Then \<open>processCreatePayload\<close> throws a
  \<open>PrismaClientValidationError\<close> whose message names \<open>f\<close>, and so do the three
  callbacks of the handler on a \<open>create\<close> node, on an \<open>upsert\<close> whose \<open>create\<close> branch
  is the payload, and on a \<open>createMany\<close> whose earlier elements return: no payload is
  returned. The same error is thrown for \<open>f\<close> as a field of a type-def that an
  embedded object does not set.
\<close>

theorem missing_identity_is_validation_error:
  assumes fields: "getFields (modelMeta this) model = Some (pre @ f # post)"
    and anonymous: "\<not> truthy (userContext this)"
    and f: "\<not> isTypeDef f" "defaultValueProvider f \<noteq> None"
    and unset: "in_op (name f) data = Inr False"
    and before: "\<forall>g \<in> set pre. \<exists>y. processField depth this model g data = Some (Inr y)"
  shows "processCreatePayload depth this model data =
           Some (Inl (PrismaClientValidationError (user_context_message (name f))))
       \<and> create_callback depth this model data =
           Some (Inl (PrismaClientValidationError (user_context_message (name f))))
       \<and> (\<forall>upsert. get_prop upsert ''create'' = Inr data \<longrightarrow>
            upsert_callback depth this model upsert =
              Some (Inl (PrismaClientValidationError (user_context_message (name f)))))
       \<and> (\<forall>args batch earlier later.
            get_prop args ''data'' = Inr batch
              \<and> enumerate_json batch = earlier @ data # later
              \<and> (\<forall>item \<in> set earlier. \<exists>y. processCreatePayload depth this model item = Some (Inr y))
            \<longrightarrow> createMany_callback depth this model args =
              Some (Inl (PrismaClientValidationError (user_context_message (name f)))))
       \<and> (\<forall>recurse item. in_op (name f) item = Inr False \<longrightarrow>
            typeDefField recurse this f item =
              Some (Inl (PrismaClientValidationError (user_context_message (name f)))))"
proof -
  let ?body = "processField depth this model"
  let ?e = "PrismaClientValidationError (user_context_message (name f))"
  have "\<forall>g \<in> set pre. \<forall>x y. ?body g x = Some (Inr y) \<longrightarrow> y = x"
    using processField_anonymous [OF anonymous] by blast
  then have reached: "for_each ?body pre data = Some (Inr data)"
    using for_each_passes [where body = ?body and fs = pre and d = data] before by simp
  have at: "?body f data = Some (Inl ?e)"
    using f unset by (simp add: processField_def getDefaultValue_anonymous [OF anonymous])
  have payload: "processCreatePayload depth this model data = Some (Inl ?e)"
    using for_each_fails_at [OF reached at, of post] fields
    by (simp add: processCreatePayload_fields)
  have upsert: "upsert_callback depth this model upsert = Some (Inl ?e)"
    if "get_prop upsert ''create'' = Inr data" for upsert
    using that payload by (simp add: upsert_callback_def)
  have many: "createMany_callback depth this model args = Some (Inl ?e)"
    if "get_prop args ''data'' = Inr batch \<and> enumerate_json batch = earlier @ data # later
          \<and> (\<forall>item \<in> set earlier. \<exists>y. processCreatePayload depth this model item = Some (Inr y))"
    for args batch earlier later
  proof -
    have "for_items (processCreatePayload depth this model) (earlier @ data # later) = Some (Inl ?e)"
      using for_items_fails_at [of earlier "processCreatePayload depth this model" data ?e later]
        that payload by blast
    then show ?thesis using that by (simp add: createMany_callback_def)
  qed
  have embedded: "typeDefField recurse this f item = Some (Inl ?e)"
    if "in_op (name f) item = Inr False" for recurse item
    using that f(1) by (simp add: typeDefField_def getDefaultValue_anonymous [OF anonymous])
  have create: "create_callback depth this model data = Some (Inl ?e)"
    using payload by (simp add: create_callback_def)
  show ?thesis
    using payload create upsert many embedded by blast
qed

theorem missing_identity_is_validation_error_witness:
  "processCreatePayload 1 (handler JUndefined False) ''Post'' (JObj [(''title'', JStr ''t'')]) =
     Some (Inl (PrismaClientValidationError (user_context_message ''authorId'')))
   \<and> upsert_callback 1 (handler JUndefined False) ''Post''
       (JObj [(''where'', JObj []), (''create'', JObj [(''title'', JStr ''t'')])]) =
     Some (Inl (PrismaClientValidationError (user_context_message ''authorId'')))
   \<and> createMany_callback 1 (handler JUndefined False) ''Post''
       (JObj [(''data'', JArr [JObj [(''title'', JStr ''t'')]] [])]) =
     Some (Inl (PrismaClientValidationError (user_context_message ''authorId'')))
   \<and> user_context_message ''authorId'' =
       ''Evaluating default value of field `authorId` requires a user context''"
proof -
  let ?h = "handler JUndefined False"
  let ?d = "JObj [(''title'', JStr ''t'')]"
  let ?f = "authorId_field"
  let ?e = "PrismaClientValidationError (user_context_message (name ?f))"
  have fs: "getFields (modelMeta ?h) ''Post'' = Some ([title_field, author_field] @ ?f # [meta_field])"
    by (simp add: example_defs)
  have anonymous: "\<not> truthy (userContext ?h)"
    by (simp add: handler_def)
  have f: "\<not> isTypeDef ?f" "defaultValueProvider ?f \<noteq> None"
    by (simp_all add: authorId_field_def plain_field_def)
  have unset: "in_op (name ?f) ?d = Inr False"
    by (simp add: in_op_def authorId_field_def plain_field_def)
  have before: "\<forall>g \<in> set [title_field, author_field].
                  \<exists>y. processField 1 ?h ''Post'' g ?d = Some (Inr y)"
    by (simp add: processField_def in_op_def title_field_def author_field_def plain_field_def)
  have u: "get_prop (JObj [(''where'', JObj []), (''create'', ?d)]) ''create'' = Inr ?d"
    by (simp add: get_prop_def prop_of_def)
  have m: "get_prop (JObj [(''data'', JArr [?d] [])]) ''data'' = Inr (JArr [?d] [])
         \<and> enumerate_json (JArr [?d] []) = [] @ ?d # []
         \<and> (\<forall>item \<in> set []. \<exists>y. processCreatePayload 1 ?h ''Post'' item = Some (Inr y))"
    by (simp add: get_prop_def prop_of_def)
  note inst = missing_identity_is_validation_error [OF fs anonymous f unset before]
  from inst have a: "processCreatePayload 1 ?h ''Post'' ?d = Some (Inl ?e)"
    by blast
  from inst u have b: "upsert_callback 1 ?h ''Post'' (JObj [(''where'', JObj []), (''create'', ?d)]) =
                        Some (Inl ?e)"
    by blast
  from inst m have c: "createMany_callback 1 ?h ''Post'' (JObj [(''data'', JArr [?d] [])]) =
                        Some (Inl ?e)"
    by blast
  have n: "name ?f = ''authorId''"
    by (simp add: authorId_field_def plain_field_def)
  have msg: "user_context_message ''authorId'' =
       ''Evaluating default value of field `authorId` requires a user context''"
    by (simp add: user_context_message_def)
  from a b c n msg show ?thesis by simp
qed

section \<open>Writes of the handler in the store\<close>

subsection \<open>Objects of the call\<close>

lemma of_call_simps [simp]:
  "of_call n VUndefined" "of_call n VNull" "of_call n (VBool b)" "of_call n (VNum i)"
  "of_call n (VStr s)" "of_call n (VRef a) \<longleftrightarrow> n \<le> a"
  by (simp_all add: of_call_def)

lemma cell_at_Some:
  "cell_at h v = Some c \<longleftrightarrow> (\<exists>a. v = VRef a \<and> a < length h \<and> c = h ! a)"
  by (cases v) auto

lemma map_of_in_vals: "map_of ps k = Some v \<Longrightarrow> v \<in> set (cell_vals (cell_with_props c ps))"
  by (cases c) (auto dest: map_of_SomeD intro: rev_image_eqI)

lemma cell_with_own_props [simp]: "cell_with_props c (cell_props c) = c"
  by (cases c) simp_all

lemma closed_read:
  assumes "closed n h" "of_call n data"
  shows "of_call n (heap_prop_of h data k)"
proof (cases "cell_at h data")
  case None
  then show ?thesis by (simp add: heap_prop_of_def)
next
  case (Some c)
  then obtain a where a: "data = VRef a" "a < length h" "c = h ! a"
    using cell_at_Some by blast
  then have vals: "\<forall>v \<in> set (cell_vals c). of_call n v"
    using assms by (simp add: closed_def)
  show ?thesis
  proof (cases "map_of (cell_props c) k")
    case None
    then show ?thesis using Some by (simp add: heap_prop_of_def)
  next
    case v: (Some v)
    then have "v \<in> set (cell_vals c)" using map_of_in_vals [of "cell_props c" k v c] by simp
    then show ?thesis using vals Some v by (simp add: heap_prop_of_def)
  qed
qed

lemma closed_opt_chain:
  "closed n h \<Longrightarrow> of_call n data \<Longrightarrow> of_call n (heap_opt_chain h data k)"
  by (simp add: heap_opt_chain_def closed_read)

lemma closed_get_prop:
  "closed n h \<Longrightarrow> of_call n data \<Longrightarrow> heap_get_prop h data k = Inr v \<Longrightarrow> of_call n v"
  by (auto simp: heap_get_prop_def closed_read split: if_splits)

lemma closed_enumerate:
  assumes "closed n h" "of_call n data"
  shows "\<forall>x \<in> set (heap_enumerate h data). of_call n x"
proof (cases "cell_at h data")
  case None
  then show ?thesis using assms(2) by (cases data) simp_all
next
  case (Some c)
  then obtain a where a: "data = VRef a" "a < length h" "c = h ! a"
    using cell_at_Some by blast
  then have vals: "\<forall>v \<in> set (cell_vals c). of_call n v"
    using assms by (simp add: closed_def)
  show ?thesis
  proof (cases c)
    case (Obj ps)
    then have "heap_enumerate h data = [data]" using a Some by simp
    then show ?thesis using assms(2) by simp
  next
    case (Arr xs ps)
    then have "heap_enumerate h data = xs" using a Some by simp
    then show ?thesis using vals Arr by simp
  qed
qed

lemma keeps_refl: "closed n h \<Longrightarrow> keeps n h h"
  by (simp add: keeps_def)

lemma keeps_trans: "keeps n h h1 \<Longrightarrow> keeps n h1 h2 \<Longrightarrow> keeps n h h2"
  by (simp add: keeps_def)

lemma keeps_closed: "keeps n h h' \<Longrightarrow> closed n h'"
  by (simp add: keeps_def)

lemma update_vals: "set (map snd (AList.update k v ps)) \<subseteq> insert v (set (map snd ps))"
  by (induction ps) auto

lemma cell_update_vals:
  "set (cell_vals (cell_with_props c (AList.update k v (cell_props c))))
     \<subseteq> insert v (set (cell_vals c))"
  using update_vals [of k v] by (cases c) auto

lemma set_prop_keeps:
  assumes "closed n h" "of_call n data" "of_call n v" "heap_set_prop h data k v = Inr h'"
  shows "keeps n h h'"
proof -
  from assms(4) obtain a where a: "data = VRef a" "a < length h"
    and h': "h' = h[a := cell_with_props (h ! a) (AList.update k v (cell_props (h ! a)))]"
    by (cases data) (auto split: if_splits)
  have na: "n \<le> a" using assms(2) a by simp
  have "of_call n x" if b: "n \<le> b" "b < length h'" and x: "x \<in> set (cell_vals (h' ! b))" for b x
  proof (cases "b = a")
    case True
    then have "x \<in> insert v (set (cell_vals (h ! a)))"
      using x h' a cell_update_vals [of "h ! a" k v] by auto
    then show ?thesis using assms(1,3) a na by (auto simp: closed_def)
  next
    case False
    then have "h' ! b = h ! b" using h' by simp
    then show ?thesis using assms(1) b x h' by (auto simp: closed_def)
  qed
  moreover have "n \<le> length h'" using assms(1) h' by (simp add: closed_def)
  moreover have "\<forall>b < n. h' ! b = h ! b" using h' na by simp
  ultimately show ?thesis by (auto simp: keeps_def closed_def)
qed

lemma new_keeps:
  assumes "closed n h" "\<forall>v \<in> set (cell_vals c). of_call n v" "heap_new h c = (h', r)"
  shows "keeps n h h' \<and> of_call n r"
proof -
  have h': "h' = h @ [c]" and r: "r = VRef (length h)"
    using assms(3) by (simp_all add: heap_new_def)
  have n: "n \<le> length h" using assms(1) by (simp add: closed_def)
  have "of_call n x" if b: "n \<le> b" "b < length h'" and x: "x \<in> set (cell_vals (h' ! b))" for b x
  proof (cases "b < length h")
    case True
    then show ?thesis using assms(1) b x h' by (auto simp: closed_def nth_append)
  next
    case False
    then have "h' ! b = c" using b h' by (simp add: nth_append less_Suc_eq)
    then show ?thesis using assms(2) x by simp
  qed
  moreover have "\<forall>b < n. h' ! b = h ! b" using h' n by (simp add: nth_append)
  ultimately show ?thesis using r n h' by (auto simp: keeps_def closed_def)
qed


lemma store_json_keeps:
  "closed n h \<Longrightarrow> store_json h j = (h', v) \<Longrightarrow> keeps n h h' \<and> of_call n v"
  "closed n h \<Longrightarrow> store_props h ps = (h', ps') \<Longrightarrow>
     keeps n h h' \<and> (\<forall>x \<in> set (map snd ps'). of_call n x)"
  "closed n h \<Longrightarrow> store_items h xs = (h', xs') \<Longrightarrow>
     keeps n h h' \<and> (\<forall>x \<in> set xs'. of_call n x)"
proof (induction h j and h ps and h xs arbitrary: h' v and h' ps' and h' xs'
        rule: store_json_store_props_store_items.induct)
  case (6 h ps)
  obtain h1 qs where p: "store_props h ps = (h1, qs)" by (cases "store_props h ps")
  have k1: "keeps n h h1" and qs: "\<forall>x \<in> set (map snd qs). of_call n x"
    using "6.IH" [OF "6.prems"(1) p] by simp_all
  have "heap_new h1 (Obj qs) = (h', v)" using "6.prems"(2) p by simp
  from new_keeps [OF keeps_closed [OF k1] _ this] qs
  show ?case using k1 keeps_trans by auto
next
  case (7 h xs ps)
  obtain h1 ys where x: "store_items h xs = (h1, ys)" by (cases "store_items h xs")
  obtain h2 qs where p: "store_props h1 ps = (h2, qs)" by (cases "store_props h1 ps")
  have k1: "keeps n h h1" and ys: "\<forall>x \<in> set ys. of_call n x"
    using "7.IH"(1) [OF "7.prems"(1) x] by simp_all
  have k2: "keeps n h1 h2" and qs: "\<forall>x \<in> set (map snd qs). of_call n x"
    using "7.IH"(2) [OF x [symmetric] keeps_closed [OF k1] p] by simp_all
  have "heap_new h2 (Arr ys qs) = (h', v)" using "7.prems"(2) x p by simp
  from new_keeps [OF keeps_closed [OF k2] _ this] ys qs
  show ?case using k1 k2 keeps_trans by (metis Un_iff cell_vals.simps(2) set_append)
next
  case (9 h k j ps)
  obtain h1 x where j: "store_json h j = (h1, x)" by (cases "store_json h j")
  obtain h2 qs where p: "store_props h1 ps = (h2, qs)" by (cases "store_props h1 ps")
  have k1: "keeps n h h1" and x: "of_call n x"
    using "9.IH"(1) [OF "9.prems"(1) j] by simp_all
  have k2: "keeps n h1 h2" and qs: "\<forall>x \<in> set (map snd qs). of_call n x"
    using "9.IH"(2) [OF j [symmetric] keeps_closed [OF k1] p] by simp_all
  have "h' = h2" "ps' = (k, x) # qs" using "9.prems"(2) j p by simp_all
  then show ?case using k1 k2 x qs keeps_trans by auto
next
  case (11 h j xs)
  obtain h1 x where j: "store_json h j = (h1, x)" by (cases "store_json h j")
  obtain h2 ys where p: "store_items h1 xs = (h2, ys)" by (cases "store_items h1 xs")
  have k1: "keeps n h h1" and x: "of_call n x"
    using "11.IH"(1) [OF "11.prems"(1) j] by simp_all
  have k2: "keeps n h1 h2" and ys: "\<forall>x \<in> set ys. of_call n x"
    using "11.IH"(2) [OF j [symmetric] keeps_closed [OF k1] p] by simp_all
  have "h' = h2" "xs' = x # ys" using "11.prems"(2) j p by simp_all
  then show ?case using k1 k2 x ys keeps_trans by auto
qed (auto simp: keeps_refl)


lemma clone_each_keeps:
  assumes "\<forall>h x h' y. closed n h \<and> f h x = Some (h', y) \<longrightarrow> keeps n h h' \<and> Q y"
  shows "closed n h \<Longrightarrow> clone_each f h xs = Some (h', ys) \<Longrightarrow>
           keeps n h h' \<and> (\<forall>y \<in> set ys. Q y)"
proof (induction xs arbitrary: h h' ys)
  case Nil
  then show ?case by (simp add: keeps_refl)
next
  case (Cons x xs)
  from Cons.prems(2) obtain h1 y zs where x: "f h x = Some (h1, y)"
    and rest: "clone_each f h1 xs = Some (h', zs)" and ys: "ys = y # zs"
    by (auto split: option.splits)
  have k1: "keeps n h h1" and y: "Q y" using assms Cons.prems(1) x by blast+
  have "keeps n h1 h' \<and> (\<forall>y \<in> set zs. Q y)"
    using Cons.IH [OF keeps_closed [OF k1] rest] .
  then show ?case using k1 y ys keeps_trans by auto
qed

lemma clone_keeps:
  "closed n h \<Longrightarrow> clone depth h v = Some (h', v') \<Longrightarrow> keeps n h h' \<and> of_call n v'"
proof (induction depth arbitrary: h v h' v')
  case 0
  then show ?case by simp
next
  case (Suc depth)
  have vals: "\<forall>h x h' y. closed n h \<and> clone depth h x = Some (h', y) \<longrightarrow>
                keeps n h h' \<and> of_call n y"
    using Suc.IH by blast
  have props: "\<forall>h p h' q. closed n h \<and> clone_prop (clone depth) h p = Some (h', q) \<longrightarrow>
                keeps n h h' \<and> of_call n (snd q)"
  proof (intro allI impI)
    fix h p h' q
    assume a: "closed n h \<and> clone_prop (clone depth) h p = Some (h', q)"
    then obtain x where "clone depth h (snd p) = Some (h', x)" "q = (fst p, x)"
      by (auto simp: clone_prop_def split: option.splits)
    then show "keeps n h h' \<and> of_call n (snd q)" using vals a by auto
  qed
  show ?case
  proof (cases "cell_at h v")
    case None
    then have r: "h' = h" "v' = v" using Suc.prems(2) by simp_all
    have "of_call n v"
    proof (cases v)
      case (VRef a)
      then have "\<not> a < length h" using None by (simp split: if_splits)
      then show ?thesis using Suc.prems(1) VRef by (simp add: closed_def)
    qed simp_all
    then show ?thesis using r Suc.prems(1) by (simp add: keeps_refl)
  next
    case (Some c)
    show ?thesis
    proof (cases c)
      case (Obj ps)
      with Some Suc.prems(2) obtain h1 ps'
        where e: "clone_each (clone_prop (clone depth)) h ps = Some (h1, ps')"
          and new: "heap_new h1 (Obj ps') = (h', v')"
        by (auto split: option.splits)
      have k1: "keeps n h h1" and q: "\<forall>q \<in> set ps'. of_call n (snd q)"
        using clone_each_keeps [OF props Suc.prems(1) e] by simp_all
      from new_keeps [OF keeps_closed [OF k1] _ new] q
      show ?thesis using k1 keeps_trans by auto
    next
      case (Arr xs ps)
      with Some Suc.prems(2) obtain h1 xs' h2 ps'
        where e1: "clone_each (clone depth) h xs = Some (h1, xs')"
          and e2: "clone_each (clone_prop (clone depth)) h1 ps = Some (h2, ps')"
          and new: "heap_new h2 (Arr xs' ps') = (h', v')"
        by (auto split: option.splits)
      have k1: "keeps n h h1" and x: "\<forall>x \<in> set xs'. of_call n x"
        using clone_each_keeps [OF vals Suc.prems(1) e1] by simp_all
      have k2: "keeps n h1 h2" and q: "\<forall>q \<in> set ps'. of_call n (snd q)"
        using clone_each_keeps [OF props keeps_closed [OF k1] e2] by simp_all
      from new_keeps [OF keeps_closed [OF k2] _ new] x q
      show ?thesis using k1 k2 keeps_trans by (metis Un_iff cell_vals.simps(2) imageE list.set_map set_append)
    qed
  qed
qed

lemma for_each_keeps:
  assumes "for_each body xs h = Some (Inr h')" "closed n h"
    and "\<forall>g \<in> set xs. \<forall>x y. closed n x \<and> body g x = Some (Inr y) \<longrightarrow> keeps n x y"
  shows "keeps n h h'"
proof -
  have "\<forall>g \<in> set xs. \<forall>x y. keeps n h x \<and> body g x = Some (Inr y) \<longrightarrow> keeps n h y"
    using assms(3) keeps_closed keeps_trans by blast
  from for_each_invariant [OF assms(1), where P = "keeps n h", OF _ this] assms(2)
  show ?thesis by (simp add: keeps_refl)
qed

lemma heap_getDefaultValue_keeps:
  "closed n h \<Longrightarrow> heap_getDefaultValue this f h = Inr (h1, v) \<Longrightarrow> keeps n h h1 \<and> of_call n v"
  by (auto simp: heap_getDefaultValue_def and_then_eq_Inr dest: store_json_keeps(1))


subsection \<open>The handler writes to objects of the call\<close>

lemma connect_object_keeps:
  assumes "closed n h" "of_call n data" "of_call n rel"
    and "(if \<not> val_truthy (heap_opt_chain h rel ''connect'')
          then
            (case heap_new h (Obj []) of (h1, connect) \<Rightarrow>
               (case heap_new h1 (Obj [(''connect'', connect)]) of (h2, holder) \<Rightarrow>
                  and_then (heap_set_prop h2 data k holder) (\<lambda>h3. Inr (connect, h3))))
          else Inr (heap_opt_chain h rel ''connect'', h)) = Inr (c, h')"
  shows "keeps n h h' \<and> of_call n c"
proof (cases "val_truthy (heap_opt_chain h rel ''connect'')")
  case True
  then show ?thesis using assms by (auto simp: keeps_refl closed_opt_chain)
next
  case False
  obtain h1 connect where n1: "heap_new h (Obj []) = (h1, connect)"
    by (cases "heap_new h (Obj [])")
  obtain h2 holder where n2: "heap_new h1 (Obj [(''connect'', connect)]) = (h2, holder)"
    by (cases "heap_new h1 (Obj [(''connect'', connect)])")
  from assms(4) False n1 n2 have set: "heap_set_prop h2 data k holder = Inr h'" and c: "c = connect"
    by (auto simp: and_then_eq_Inr)
  have k1: "keeps n h h1" and c1: "of_call n connect"
    using new_keeps [OF assms(1) _ n1] by simp_all
  have k2: "keeps n h1 h2" and c2: "of_call n holder"
    using new_keeps [OF keeps_closed [OF k1] _ n2] c1 by simp_all
  have k3: "keeps n h2 h'"
    using set_prop_keeps [OF keeps_closed [OF k2] assms(2) c2 set] .
  show ?thesis using k1 k2 k3 c c1 keeps_trans by blast
qed

lemma heap_setDefaultValueForModelData_keeps:
  assumes "closed n h" "of_call n data" "of_call n v"
    and run: "heap_setDefaultValueForModelData unsafe this f model data v h = Inr h'"
  shows "keeps n h h'"
proof -
  from run obtain relationIsSet where rest:
    "(if relationIsSet then Inr h
      else if isForeignKey f \<and> \<not> unsafe model h data then
        (case relationField f of
           None \<Rightarrow> Inl (Error (no_relation_message (name f)))
         | Some relFieldName \<Rightarrow>
             if relFieldName = [] then Inl (Error (no_relation_message (name f)))
             else
               and_then (requireField (modelMeta this) model relFieldName) (\<lambda>relationField'.
               and_then (heap_get_prop h data (name relationField')) (\<lambda>rel.
               and_then
                 (if \<not> val_truthy (heap_opt_chain h rel ''connect'')
                  then
                    (case heap_new h (Obj []) of (h1, connect) \<Rightarrow>
                       (case heap_new h1 (Obj [(''connect'', connect)]) of (h2, holder) \<Rightarrow>
                          and_then (heap_set_prop h2 data (name relationField') holder)
                            (\<lambda>h3. Inr (connect, h3))))
                  else Inr (heap_opt_chain h rel ''connect'', h))
                 (\<lambda>(connect, h1).
                    (case getOppositeFkFieldName relationField' f of
                       None \<Rightarrow> Inl (Error (no_opposite_message (name f) relFieldName))
                     | Some oppositeFkFieldName \<Rightarrow>
                         if oppositeFkFieldName = []
                         then Inl (Error (no_opposite_message (name f) relFieldName))
                         else heap_set_prop h1 connect oppositeFkFieldName v)))))
      else heap_set_prop h data (name f) v) = Inr h'"
    unfolding heap_setDefaultValueForModelData_def and_then_eq_Inr by blast
  show ?thesis
  proof (cases relationIsSet)
    case True
    then show ?thesis using rest assms(1) by (simp add: keeps_refl)
  next
    case False
    show ?thesis
    proof (cases "isForeignKey f \<and> \<not> unsafe model h data")
      case scalar: False
      then have "heap_set_prop h data (name f) v = Inr h'" using rest False by auto
      then show ?thesis using set_prop_keeps assms by blast
    next
      case True
      with rest False have "(case relationField f of
           None \<Rightarrow> Inl (Error (no_relation_message (name f)))
         | Some relFieldName \<Rightarrow>
             if relFieldName = [] then Inl (Error (no_relation_message (name f)))
             else
               and_then (requireField (modelMeta this) model relFieldName) (\<lambda>relationField'.
               and_then (heap_get_prop h data (name relationField')) (\<lambda>rel.
               and_then
                 (if \<not> val_truthy (heap_opt_chain h rel ''connect'')
                  then
                    (case heap_new h (Obj []) of (h1, connect) \<Rightarrow>
                       (case heap_new h1 (Obj [(''connect'', connect)]) of (h2, holder) \<Rightarrow>
                          and_then (heap_set_prop h2 data (name relationField') holder)
                            (\<lambda>h3. Inr (connect, h3))))
                  else Inr (heap_opt_chain h rel ''connect'', h))
                 (\<lambda>(connect, h1).
                    (case getOppositeFkFieldName relationField' f of
                       None \<Rightarrow> Inl (Error (no_opposite_message (name f) relFieldName))
                     | Some oppositeFkFieldName \<Rightarrow>
                         if oppositeFkFieldName = []
                         then Inl (Error (no_opposite_message (name f) relFieldName))
                         else heap_set_prop h1 connect oppositeFkFieldName v))))) = Inr h'"
        by simp
      then obtain r where chain:
        "and_then (requireField (modelMeta this) model r) (\<lambda>relationField'.
               and_then (heap_get_prop h data (name relationField')) (\<lambda>rel.
               and_then
                 (if \<not> val_truthy (heap_opt_chain h rel ''connect'')
                  then
                    (case heap_new h (Obj []) of (h1, connect) \<Rightarrow>
                       (case heap_new h1 (Obj [(''connect'', connect)]) of (h2, holder) \<Rightarrow>
                          and_then (heap_set_prop h2 data (name relationField') holder)
                            (\<lambda>h3. Inr (connect, h3))))
                  else Inr (heap_opt_chain h rel ''connect'', h))
                 (\<lambda>(connect, h1).
                    (case getOppositeFkFieldName relationField' f of
                       None \<Rightarrow> Inl (Error (no_opposite_message (name f) r))
                     | Some oppositeFkFieldName \<Rightarrow>
                         if oppositeFkFieldName = []
                         then Inl (Error (no_opposite_message (name f) r))
                         else heap_set_prop h1 connect oppositeFkFieldName v)))) = Inr h'"
        by (cases "relationField f") (simp_all split: if_splits)
      then obtain rf rel p where rel: "heap_get_prop h data (name rf) = Inr rel"
          and objp: "(if \<not> val_truthy (heap_opt_chain h rel ''connect'')
                  then
                    (case heap_new h (Obj []) of (h1, connect) \<Rightarrow>
                       (case heap_new h1 (Obj [(''connect'', connect)]) of (h2, holder) \<Rightarrow>
                          and_then (heap_set_prop h2 data (name rf) holder)
                            (\<lambda>h3. Inr (connect, h3))))
                  else Inr (heap_opt_chain h rel ''connect'', h)) = Inr p"
          and last: "(case p of (connect, h1) \<Rightarrow>
                    (case getOppositeFkFieldName rf f of
                       None \<Rightarrow> Inl (Error (no_opposite_message (name f) r))
                     | Some oppositeFkFieldName \<Rightarrow>
                         if oppositeFkFieldName = []
                         then Inl (Error (no_opposite_message (name f) r))
                         else heap_set_prop h1 connect oppositeFkFieldName v)) = Inr h'"
        unfolding and_then_eq_Inr by blast
      obtain c h1 where p: "p = (c, h1)" by (cases p)
      have obj: "(if \<not> val_truthy (heap_opt_chain h rel ''connect'')
                  then
                    (case heap_new h (Obj []) of (h1, connect) \<Rightarrow>
                       (case heap_new h1 (Obj [(''connect'', connect)]) of (h2, holder) \<Rightarrow>
                          and_then (heap_set_prop h2 data (name rf) holder)
                            (\<lambda>h3. Inr (connect, h3))))
                  else Inr (heap_opt_chain h rel ''connect'', h)) = Inr (c, h1)"
        using objp p by simp
      obtain opp where set: "heap_set_prop h1 c opp v = Inr h'"
        using last p by (cases "getOppositeFkFieldName rf f") (simp_all split: if_splits)
      from rel have "of_call n rel" using closed_get_prop assms(1,2) by blast
      from connect_object_keeps [OF assms(1,2) this obj]
      have k1: "keeps n h h1" and c: "of_call n c" by simp_all
      have "keeps n h1 h'"
        using set_prop_keeps [OF keeps_closed [OF k1] c assms(3) set] .
      then show ?thesis using k1 keeps_trans by blast
    qed
  qed
qed

lemma heap_typeDefField_keeps:
  assumes rec: "\<forall>t v x y. closed n x \<and> of_call n v \<and> recurse t v x = Some (Inr y) \<longrightarrow> keeps n x y"
    and "closed n h" "of_call n item"
    and run: "heap_typeDefField recurse this item f h = Some (Inr h')"
  shows "keeps n h h'"
proof (cases "isTypeDef f")
  case True
  then have "recurse (type f) (heap_prop_of h item (name f)) h = Some (Inr h')"
    using run by (simp add: heap_typeDefField_def)
  then show ?thesis using rec assms(2,3) closed_read by blast
next
  case False
  then have "and_then (heap_in (name f) h item) (\<lambda>isSet.
                if \<not> isSet then
                  and_then (heap_getDefaultValue this f h) (\<lambda>(h1, defaultValue).
                    if defaultValue \<noteq> VUndefined
                    then heap_set_prop h1 item (name f) defaultValue
                    else Inr h1)
                else Inr h) = Inr h'"
    using run by (simp add: heap_typeDefField_def)
  then consider "h' = h"
    | h1 v where "heap_getDefaultValue this f h = Inr (h1, v)" "h' = h1"
    | h1 v where "heap_getDefaultValue this f h = Inr (h1, v)"
        "heap_set_prop h1 item (name f) v = Inr h'"
    by (auto simp: and_then_eq_Inr split: if_splits)
  then show ?thesis
  proof cases
    case 1
    then show ?thesis using assms(2) by (simp add: keeps_refl)
  next
    case 2
    then show ?thesis using heap_getDefaultValue_keeps [OF assms(2)] by blast
  next
    case 3
    have k1: "keeps n h h1" and v: "of_call n v"
      using heap_getDefaultValue_keeps [OF assms(2) 3(1)] by simp_all
    have "keeps n h1 h'"
      using set_prop_keeps [OF keeps_closed [OF k1] assms(3) v 3(2)] .
    then show ?thesis using k1 keeps_trans by blast
  qed
qed

lemma heap_typeDefData_keeps:
  assumes rec: "\<forall>t v x y. closed n x \<and> of_call n v \<and> recurse t v x = Some (Inr y) \<longrightarrow> keeps n x y"
    and "closed n h" "of_call n data"
    and run: "heap_typeDefData recurse this t data h = Some (Inr h')"
  shows "keeps n h h'"
proof -
  have item: "keeps n x y"
    if "closed n x" "of_call n item" "heap_typeDefItem recurse this typeDef item x = Some (Inr y)"
    for typeDef item x y
  proof (cases "\<not> val_truthy item \<or> \<not> val_typeof_object item")
    case True
    then show ?thesis using that by (simp add: heap_typeDefItem_def keeps_refl)
  next
    case False
    then have loop: "for_each (heap_typeDefField recurse this item) typeDef x = Some (Inr y)"
      using that(3) by (simp add: heap_typeDefItem_def)
    have "\<forall>g \<in> set typeDef. \<forall>x y. closed n x \<and> heap_typeDefField recurse this item g x = Some (Inr y)
            \<longrightarrow> keeps n x y"
      using heap_typeDefField_keeps [OF rec _ that(2)] by blast
    from for_each_keeps [OF loop that(1) this] show ?thesis .
  qed
  have "h' = h \<or> (\<exists>typeDef.
          for_each (heap_typeDefItem recurse this typeDef) (heap_enumerate h data) h = Some (Inr h'))"
  proof (cases "\<not> val_truthy data \<or> (\<not> val_typeof_object data \<and> \<not> heap_isArray h data)")
    case True
    then have "heap_typeDefData recurse this t data h = Some (Inr h)"
      unfolding heap_typeDefData_def by (rule if_P)
    then show ?thesis using run by simp
  next
    case False
    then have walk: "heap_typeDefData recurse this t data h =
        (case getTypeDefInfo (modelMeta this) t of
           None \<Rightarrow> Some (Inr h)
         | Some typeDef \<Rightarrow>
             for_each (heap_typeDefItem recurse this typeDef) (heap_enumerate h data) h)"
      unfolding heap_typeDefData_def by (rule if_not_P)
    show ?thesis
    proof (cases "getTypeDefInfo (modelMeta this) t")
      case None
      then show ?thesis using walk run by simp
    next
      case (Some typeDef)
      then show ?thesis using walk run by auto
    qed
  qed
  then consider "h' = h"
    | typeDef where "for_each (heap_typeDefItem recurse this typeDef) (heap_enumerate h data) h
                       = Some (Inr h')"
    by blast
  then show ?thesis
  proof cases
    case 1
    then show ?thesis using assms(2) by (simp add: keeps_refl)
  next
    case 2
    have "\<forall>i \<in> set (heap_enumerate h data). \<forall>x y.
            closed n x \<and> heap_typeDefItem recurse this typeDef i x = Some (Inr y) \<longrightarrow> keeps n x y"
      using item closed_enumerate [OF assms(2,3)] by blast
    from for_each_keeps [OF 2 assms(2) this] show ?thesis .
  qed
qed

lemma heap_setDefaultValueForTypeDefData_keeps:
  "closed n h \<Longrightarrow> of_call n data \<Longrightarrow>
     heap_setDefaultValueForTypeDefData depth this t data h = Some (Inr h') \<Longrightarrow> keeps n h h'"
proof (induction depth arbitrary: t data h h')
  case 0
  then show ?case by simp
next
  case (Suc depth)
  have "\<forall>t v x y. closed n x \<and> of_call n v
            \<and> heap_setDefaultValueForTypeDefData depth this t v x = Some (Inr y) \<longrightarrow> keeps n x y"
    using Suc.IH by blast
  from heap_typeDefData_keeps [OF this Suc.prems(1,2)] Suc.prems(3) show ?case by simp
qed

lemma heap_processField_keeps:
  assumes "closed n h" "of_call n data"
    and run: "heap_processField unsafe depth this model data f h = Some (Inr h')"
  shows "keeps n h h'"
proof (cases "isTypeDef f")
  case True
  with run obtain sub where "heap_get_prop h data (name f) = Inr sub"
    and "heap_setDefaultValueForTypeDefData depth this (type f) sub h = Some (Inr h')"
    by (auto simp: heap_processField_def split: sum.splits)
  then show ?thesis
    using heap_setDefaultValueForTypeDefData_keeps [OF assms(1)] closed_get_prop [OF assms(1,2)]
    by blast
next
  case False
  then have "and_then (heap_in (name f) h data) (\<lambda>isSet.
                if isSet then Inr h
                else if defaultValueProvider f = None then Inr h
                else
                  and_then (heap_getDefaultValue this f h) (\<lambda>(h1, defaultValue).
                    if defaultValue \<noteq> VUndefined
                    then heap_setDefaultValueForModelData unsafe this f model data
                           defaultValue h1
                    else Inr h1)) = Inr h'"
    using run by (simp add: heap_processField_def)
  then consider "h' = h"
    | h1 v where "heap_getDefaultValue this f h = Inr (h1, v)" "h' = h1"
    | h1 v where "heap_getDefaultValue this f h = Inr (h1, v)"
        "heap_setDefaultValueForModelData unsafe this f model data v h1 = Inr h'"
    by (auto simp: and_then_eq_Inr split: if_splits)
  then show ?thesis
  proof cases
    case 1
    then show ?thesis using assms(1) by (simp add: keeps_refl)
  next
    case 2
    then show ?thesis using heap_getDefaultValue_keeps [OF assms(1)] by blast
  next
    case 3
    have k1: "keeps n h h1" and v: "of_call n v"
      using heap_getDefaultValue_keeps [OF assms(1) 3(1)] by simp_all
    have "keeps n h1 h'"
      using heap_setDefaultValueForModelData_keeps [OF keeps_closed [OF k1] assms(2) v 3(2)] .
    then show ?thesis using k1 keeps_trans by blast
  qed
qed

lemma heap_processCreatePayload_keeps:
  assumes "closed n h" "of_call n data"
    and run: "heap_processCreatePayload unsafe depth this model data h = Some (Inr h')"
  shows "keeps n h h'"
proof -
  from run obtain fs
    where loop: "for_each (heap_processField unsafe depth this model data) fs h = Some (Inr h')"
    by (auto simp: heap_processCreatePayload_def split: option.splits)
  have "\<forall>g \<in> set fs. \<forall>x y. closed n x
          \<and> heap_processField unsafe depth this model data g x = Some (Inr y) \<longrightarrow> keeps n x y"
    using heap_processField_keeps assms(2) by blast
  from for_each_keeps [OF loop assms(1) this] show ?thesis .
qed

lemma heap_callback_keeps:
  assumes "closed n h" "of_call n (snd (snd node))"
    and run: "heap_callback unsafe depth this node h = Some (Inr h')"
  shows "keeps n h h'"
proof -
  obtain cb model data where node: "node = (cb, model, data)" by (cases node)
  then have data: "of_call n data" using assms(2) by simp
  show ?thesis
  proof (cases cb)
    case Create
    then show ?thesis using run node heap_processCreatePayload_keeps [OF assms(1) data] by simp
  next
    case Upsert
    with run node obtain payload where "heap_get_prop h data ''create'' = Inr payload"
      and "heap_processCreatePayload unsafe depth this model payload h = Some (Inr h')"
      by (auto split: sum.splits)
    then show ?thesis
      using heap_processCreatePayload_keeps [OF assms(1)] closed_get_prop [OF assms(1) data]
      by blast
  next
    case CreateMany
    with run node obtain batch where batch: "heap_get_prop h data ''data'' = Inr batch"
      and loop: "for_each (heap_processCreatePayload unsafe depth this model)
                   (heap_enumerate h batch) h = Some (Inr h')"
      by (auto split: sum.splits)
    have "of_call n batch" using closed_get_prop [OF assms(1) data batch] .
    then have "\<forall>i \<in> set (heap_enumerate h batch). \<forall>x y. closed n x
          \<and> heap_processCreatePayload unsafe depth this model i x = Some (Inr y) \<longrightarrow> keeps n x y"
      using heap_processCreatePayload_keeps closed_enumerate [OF assms(1)] by blast
    from for_each_keeps [OF loop assms(1) this] show ?thesis .
  qed
qed


section \<open>The caller's argument object\<close>

text \<open>
  Claim C7. \<open>preprocessArgs\<close> is run on the store \<open>h\<close> with the argument \<open>args\<close>, and
  the visitor hands to the callbacks nodes of the clone only. When the call returns,
  the store begins with \<open>h\<close>: every object that was there before the call is as it
  was, all writes have gone to objects made by the call; and for an action with a write
  payload the value returned is such an object (or a primitive).
\<close>

theorem caller_objects_unchanged:
  assumes nodes: "\<forall>h1 newArgs. clone depth h args = Some (h1, newArgs) \<longrightarrow>
        (\<forall>node \<in> set (visit model action h1 newArgs). of_call (length h) (snd (snd node)))"
    and run: "heap_preprocessArgs unsafe visit actions depth this model action args h =
                Some (Inr (h', args'))"
  shows "take (length h) h' = h
       \<and> (val_truthy args \<and> action \<in> set actions \<longrightarrow> of_call (length h) args')"
proof (cases "val_truthy args \<and> action \<in> set actions")
  case False
  then have "h' = h" using run by (auto simp: heap_preprocessArgs_def)
  then have "take (length h) h' = h" by simp
  then show ?thesis using False by blast
next
  case True
  let ?n = "length h"
  have start: "closed ?n h" by (auto simp: closed_def)
  from True run have "heap_preprocessWritePayload unsafe visit depth this model action args h =
                        Some (Inr (h', args'))"
    by (simp add: heap_preprocessArgs_def)
  then obtain h1 where cl: "clone depth h args = Some (h1, args')"
    and loop: "for_each (heap_callback unsafe depth this) (visit model action h1 args') h1 =
                 Some (Inr h')"
    by (auto simp: heap_preprocessWritePayload_def split: option.splits sum.splits)
  have k1: "keeps ?n h h1" and new: "of_call ?n args'"
    using clone_keeps [OF start cl] by simp_all
  have "\<forall>node \<in> set (visit model action h1 args'). \<forall>x y.
          closed ?n x \<and> heap_callback unsafe depth this node x = Some (Inr y) \<longrightarrow> keeps ?n x y"
    using heap_callback_keeps nodes cl by blast
  from for_each_keeps [OF loop keeps_closed [OF k1] this]
  have "keeps ?n h h'" using k1 keeps_trans by blast
  then have len: "?n \<le> length h'" and same: "\<forall>a < ?n. h' ! a = h ! a"
    by (simp_all add: keeps_def closed_def)
  have "take ?n h' = h"
    by (rule nth_equalityI) (use len same in simp_all)
  then show ?thesis using new by simp
qed

theorem caller_objects_unchanged_witness:
  "heap_preprocessArgs (\<lambda>model h data. False) top_level_visit [''create'', ''createMany'', ''upsert'']
     3 (handler u1 False) ''Post'' ''create'' (VRef 0)
     [Obj [(''data'', VRef 1)], Obj [(''title'', VStr ''t''), (''meta'', VRef 2)], Obj []] =
   Some (Inr ([Obj [(''data'', VRef 1)], Obj [(''title'', VStr ''t''), (''meta'', VRef 2)], Obj [],
               Obj [(''editor'', VStr ''u1'')],
               Obj [(''title'', VStr ''t''), (''meta'', VRef 3), (''author'', VRef 7)],
               Obj [(''data'', VRef 4)],
               Obj [(''id'', VStr ''u1'')],
               Obj [(''connect'', VRef 6)]],
              VRef 5))
   \<and> take 3 [Obj [(''data'', VRef 1)], Obj [(''title'', VStr ''t''), (''meta'', VRef 2)], Obj [],
               Obj [(''editor'', VStr ''u1'')],
               Obj [(''title'', VStr ''t''), (''meta'', VRef 3), (''author'', VRef 7)],
               Obj [(''data'', VRef 4)],
               Obj [(''id'', VStr ''u1'')],
               Obj [(''connect'', VRef 6)]] =
       [Obj [(''data'', VRef 1)], Obj [(''title'', VStr ''t''), (''meta'', VRef 2)], Obj []]"
proof -
  let ?h = "[Obj [(''data'', VRef 1)], Obj [(''title'', VStr ''t''), (''meta'', VRef 2)], Obj []]"
  let ?h1 = "?h @ [Obj [], Obj [(''title'', VStr ''t''), (''meta'', VRef 3)], Obj [(''data'', VRef 4)]]"
  let ?h' = "[Obj [(''data'', VRef 1)], Obj [(''title'', VStr ''t''), (''meta'', VRef 2)], Obj [],
               Obj [(''editor'', VStr ''u1'')],
               Obj [(''title'', VStr ''t''), (''meta'', VRef 3), (''author'', VRef 7)],
               Obj [(''data'', VRef 4)],
               Obj [(''id'', VStr ''u1'')],
               Obj [(''connect'', VRef 6)]]"
  have cl: "clone 3 ?h (VRef 0) = Some (?h1, VRef 5)"
    by code_simp
  have "\<forall>node \<in> set (top_level_visit ''Post'' ''create'' ?h1 (VRef 5)).
          of_call (length ?h) (snd (snd node))"
    by (simp add: top_level_visit_def heap_prop_of_def)
  then have nodes: "\<forall>h1 newArgs. clone 3 ?h (VRef 0) = Some (h1, newArgs) \<longrightarrow>
        (\<forall>node \<in> set (top_level_visit ''Post'' ''create'' h1 newArgs).
            of_call (length ?h) (snd (snd node)))"
    using cl by simp
  have run: "heap_preprocessArgs (\<lambda>model h data. False) top_level_visit
               [''create'', ''createMany'', ''upsert''] 3 (handler u1 False) ''Post'' ''create''
               (VRef 0) ?h = Some (Inr (?h', VRef 5))"
    by code_simp
  from caller_objects_unchanged [OF nodes run]
  have "take (length ?h) ?h' = ?h" by blast
  then show ?thesis using run by simp
qed

end
